theory Spec2Isabelle
  imports Main "HOL-Library.Multiset"
begin

section \<open>Strings\<close>

text \<open>
  JavaScript strings are modelled as \<open>string\<close> (lists of 8-bit characters), so the
  development covers ASCII text: \<open>toLowerCase\<close> maps \<open>A\<close>..\<open>Z\<close> to \<open>a\<close>..\<open>z\<close>, and
  the regular-expression class \<open>\s\<close> is the ASCII white space (tab, line feed, vertical
  tab, form feed, carriage return, space). Under the \<open>i\<close> flag without the \<open>u\<close> flag a
  class such as \<open>[a-z]\<close> matches exactly the ASCII letters of both cases.
\<close>

definition upper_chars :: string where
  "upper_chars = ''ABCDEFGHIJKLMNOPQRSTUVWXYZ''"

definition lower_chars :: string where
  "lower_chars = ''abcdefghijklmnopqrstuvwxyz''"

definition is_upper :: "char \<Rightarrow> bool" where
  "is_upper c = (c \<in> set upper_chars)"

definition is_lower :: "char \<Rightarrow> bool" where
  "is_lower c = (c \<in> set lower_chars)"

definition is_alpha :: "char \<Rightarrow> bool" where
  "is_alpha c = (is_lower c \<or> is_upper c)"

definition is_digit :: "char \<Rightarrow> bool" where
  "is_digit c = (c \<in> set ''0123456789'')"

definition is_space :: "char \<Rightarrow> bool" where
  "is_space c = (c \<in> set [CHR 0x09, CHR 0x0A, CHR 0x0B, CHR 0x0C, CHR 0x0D, CHR '' ''])"

definition to_lower_char :: "char \<Rightarrow> char" where
  "to_lower_char c = (case map_of (zip upper_chars lower_chars) c of Some d \<Rightarrow> d | None \<Rightarrow> c)"

definition toLowerCase :: "string \<Rightarrow> string" where
  "toLowerCase s = map to_lower_char s"

text \<open>\<open>String.prototype.trim\<close>, \<open>split\<close> on one character and \<open>includes\<close>.\<close>

definition trim :: "string \<Rightarrow> string" where
  "trim s = rev (dropWhile is_space (rev (dropWhile is_space s)))"

fun split_on :: "char \<Rightarrow> string \<Rightarrow> string list" where
  "split_on d [] = [[]]"
| "split_on d (c # cs) =
     (if c = d then [] # split_on d cs
      else (case split_on d cs of [] \<Rightarrow> [[c]] | x # xs \<Rightarrow> (c # x) # xs))"

fun str_includes :: "string \<Rightarrow> string \<Rightarrow> bool" where
  "str_includes [] sub = (sub = [])"
| "str_includes (c # cs) sub = (take (length sub) (c # cs) = sub \<or> str_includes cs sub)"

definition starts_with :: "string \<Rightarrow> string \<Rightarrow> bool" where
  "starts_with s p = (take (length p) s = p)"

text \<open>Case-insensitive match of a lower-case literal at the start of the input.\<close>

definition starts_with_ci :: "string \<Rightarrow> string \<Rightarrow> bool" where
  "starts_with_ci s p = (toLowerCase (take (length p) s) = p)"

text \<open>\<open>s.replace(/^p/, '')\<close> and \<open>s.replace(/p$/, '')\<close> for a literal \<open>p\<close>.\<close>

definition strip_prefix :: "string \<Rightarrow> string \<Rightarrow> string" where
  "strip_prefix p s = (if starts_with s p then drop (length p) s else s)"

definition strip_suffix :: "string \<Rightarrow> string \<Rightarrow> string" where
  "strip_suffix p s = rev (strip_prefix (rev p) (rev s))"

text \<open>The character classes \<open>[a-z0-9-]\<close> and \<open>[a-z-]\<close> under the \<open>i\<close> flag.\<close>

definition is_word_char :: "char \<Rightarrow> bool" where
  "is_word_char c = (is_alpha c \<or> is_digit c \<or> c = CHR ''-'')"

definition is_name_char :: "char \<Rightarrow> bool" where
  "is_name_char c = (is_alpha c \<or> c = CHR ''-'')"

text \<open>
  \<open>String.prototype.match\<close> with a regular expression without the \<open>g\<close> flag: the leftmost
  position where the expression matches. The matcher \<open>m\<close> says whether the expression
  matches at the start of a suffix of the input, and with which capture.
\<close>

fun first_match :: "(string \<Rightarrow> 'a option) \<Rightarrow> string \<Rightarrow> 'a option" where
  "first_match m [] = m []"
| "first_match m (c # cs) = (case m (c # cs) of Some r \<Rightarrow> Some r | None \<Rightarrow> first_match m cs)"

text \<open>
  The loop \<open>while ((match = regex.exec(s)) !== null)\<close> over a regular expression with the
  \<open>g\<close> flag: the captures of the successive matches, each search starting where the last
  match ended. The matcher gives the capture and the length of the match at the start of a
  suffix of the input. Every expression of this program matches at least one character, so
  the next search starts \<open>n - 1\<close> characters after the tail of the suffix.
\<close>

fun exec_all :: "(string \<Rightarrow> (string \<times> nat) option) \<Rightarrow> string \<Rightarrow> string list" where
  "exec_all m [] = []"
| "exec_all m (c # cs) =
     (case m (c # cs) of
        None \<Rightarrow> exec_all m cs
      | Some (cap, n) \<Rightarrow> cap # exec_all m (drop (n - 1) cs))"

section \<open>The reference data (caniemail.ts)\<close>

datatype SupportLevels = YES | PARTIAL | NO | UNKNOWN

datatype category = Css | Html | Image | Others

text \<open>
  \<open>stats\<close> is \<open>Record<string, Record<string, Record<string, string>>>\<close>. The two outer
  records are only indexed, so they are maps. The innermost record (version to raw support
  code) is enumerated with \<open>Object.keys\<close>, so it is the list of its entries in enumeration
  order; the keys of a JavaScript object are distinct.
\<close>

record CanIEmailFeature =
  category :: category
  description :: string
  "keywords" :: "string option"
  notesByNum :: "(string \<rightharpoonup> string) option"
  slug :: string
  stats :: "string \<rightharpoonup> (string \<rightharpoonup> (string \<times> string) list)"
  title :: string
  url :: string

record MajorClient =
  family :: string
  label :: string
  platform :: string

definition MAJOR_CLIENTS :: "MajorClient list" where
  "MAJOR_CLIENTS =
    [\<lparr>family = ''gmail'', label = ''Gmail'', platform = ''desktop-webmail''\<rparr>,
     \<lparr>family = ''outlook'', label = ''Outlook Windows'', platform = ''windows''\<rparr>,
     \<lparr>family = ''outlook'', label = ''Outlook Mac'', platform = ''macos''\<rparr>,
     \<lparr>family = ''outlook'', label = ''Outlook.com'', platform = ''outlook-com''\<rparr>,
     \<lparr>family = ''apple-mail'', label = ''Apple Mail'', platform = ''macos''\<rparr>,
     \<lparr>family = ''apple-mail'', label = ''iOS Mail'', platform = ''ios''\<rparr>,
     \<lparr>family = ''yahoo'', label = ''Yahoo'', platform = ''desktop-webmail''\<rparr>,
     \<lparr>family = ''samsung-email'', label = ''Samsung Email'', platform = ''android''\<rparr>]"

subsection \<open>getSupportLevel\<close>

definition level_of_char :: "char \<Rightarrow> SupportLevels option" where
  "level_of_char c =
    (if c = CHR ''y'' then Some YES
     else if c = CHR ''a'' then Some PARTIAL
     else if c = CHR ''n'' then Some NO
     else if c = CHR ''u'' then Some UNKNOWN
     else None)"

text \<open>
  \<open>rawValue.match(/^([ynau])\s*(?:#(\d+))?$/)\<close>: the result is the pair of the two
  capture groups (the level, and the footnote number when the optional group took part),
  or \<open>None\<close> when the whole string does not match.
\<close>

definition matchLevel :: "string \<Rightarrow> (SupportLevels \<times> string option) option" where
  "matchLevel rawValue =
    (case rawValue of
       [] \<Rightarrow> None
     | c # rest \<Rightarrow>
        (case level_of_char c of
           None \<Rightarrow> None
         | Some l \<Rightarrow>
            (case dropWhile is_space rest of
               [] \<Rightarrow> Some (l, None)
             | h # ds \<Rightarrow>
                if h = CHR ''#'' \<and> ds \<noteq> [] \<and> list_all is_digit ds
                then Some (l, Some ds) else None)))"

record Support =
  level :: SupportLevels
  "note" :: "string option"
  version :: string

text \<open>
  \<open>null\<close> is \<open>None\<close>. An object is truthy, so \<open>!familyStats\<close> and \<open>!platformStats\<close> hold
  exactly when the key is absent. \<open>Object.keys(platformStats).at(-1)\<close> is undefined for an
  empty record, and \<open>!latestVersion\<close> also holds for the empty key.
\<close>

definition getSupportLevel :: "CanIEmailFeature \<Rightarrow> string \<Rightarrow> string \<Rightarrow> Support option" where
  "getSupportLevel feature fam plat =
    (case stats feature fam of
       None \<Rightarrow> None
     | Some familyStats \<Rightarrow>
        (case familyStats plat of
           None \<Rightarrow> None
         | Some platformStats \<Rightarrow>
            if platformStats = [] then None
            else
              let latestVersion = fst (last platformStats);
                  rawValue = snd (last platformStats)
              in if latestVersion = [] then None
                 else
                   (case matchLevel rawValue of
                      None \<Rightarrow> Some \<lparr>level = UNKNOWN, note = None, version = latestVersion\<rparr>
                    | Some (l, noteNum) \<Rightarrow>
                        Some \<lparr>level = l,
                              note = (case noteNum of
                                        None \<Rightarrow> None
                                      | Some n \<Rightarrow>
                                         (case notesByNum feature of
                                            None \<Rightarrow> None
                                          | Some notes \<Rightarrow> notes n)),
                              version = latestVersion\<rparr>)))"

subsection \<open>getFeatureSupportSummary\<close>

record Summary =
  partial :: "MajorClient list"
  supported :: "MajorClient list"
  unknown :: "MajorClient list"
  unsupported :: "MajorClient list"

text \<open>One iteration of the loop over the clients: the client is pushed on one bucket.\<close>

definition summary_step :: "CanIEmailFeature \<Rightarrow> Summary \<Rightarrow> MajorClient \<Rightarrow> Summary" where
  "summary_step feature result client =
    (case getSupportLevel feature (family client) (platform client) of
       None \<Rightarrow> result\<lparr>unknown := unknown result @ [client]\<rparr>
     | Some support \<Rightarrow>
        if level support = UNKNOWN then result\<lparr>unknown := unknown result @ [client]\<rparr>
        else if level support = YES then result\<lparr>supported := supported result @ [client]\<rparr>
        else if level support = PARTIAL then result\<lparr>partial := partial result @ [client]\<rparr>
        else result\<lparr>unsupported := unsupported result @ [client]\<rparr>)"

definition summary_over :: "CanIEmailFeature \<Rightarrow> MajorClient list \<Rightarrow> Summary \<Rightarrow> Summary" where
  "summary_over feature clients result = foldl (summary_step feature) result clients"

definition getFeatureSupportSummary :: "CanIEmailFeature \<Rightarrow> Summary" where
  "getFeatureSupportSummary feature =
    summary_over feature MAJOR_CLIENTS
      \<lparr>partial = [], supported = [], unknown = [], unsupported = []\<rparr>"

subsection \<open>createCompatibilityIssues\<close>

datatype FeatureType = CssType | CssAtRule | HtmlElement | HtmlAttribute

datatype Severity = Error | Warning | Success

record CompatibilityIssue =
  feature :: CanIEmailFeature
  featureType :: FeatureType
  property :: string
  severity :: Severity
  summary :: Summary

text \<open>
  A JavaScript \<open>Set\<close> iterates in insertion order and holds no element twice: it is the
  list of its elements in that order, and \<open>add\<close> appends an element that is not there yet.
\<close>

definition set_add :: "'a \<Rightarrow> 'a list \<Rightarrow> 'a list" where
  "set_add x xs = (if x \<in> set xs then xs else xs @ [x])"

text \<open>The state of the closure \<open>processFeatures\<close>: \<open>issues\<close> and \<open>processedSlugs\<close>.\<close>

type_synonym issues_state = "CompatibilityIssue list \<times> string list"

definition severity_of :: "Summary \<Rightarrow> Severity" where
  "severity_of s =
    (if length (unsupported s) > 0 then Error
     else if length (partial s) > 0 then Warning
     else Success)"

definition process_item ::
  "(string \<rightharpoonup> CanIEmailFeature) \<Rightarrow> FeatureType \<Rightarrow> (string \<Rightarrow> string) \<Rightarrow>
   issues_state \<Rightarrow> string \<Rightarrow> issues_state" where
  "process_item featureMap ftype formatProperty st item =
    (case featureMap item of
       None \<Rightarrow> st
     | Some f \<Rightarrow>
        if slug f \<in> set (snd st) then st
        else
          let processedSlugs = set_add (slug f) (snd st);
              s = getFeatureSupportSummary f
          in (fst st @ [\<lparr>feature = f, featureType = ftype, property = formatProperty item,
                          severity = severity_of s, summary = s\<rparr>],
              processedSlugs))"

definition processFeatures ::
  "string list \<Rightarrow> (string \<rightharpoonup> CanIEmailFeature) \<Rightarrow> FeatureType \<Rightarrow> (string \<Rightarrow> string) \<Rightarrow>
   issues_state \<Rightarrow> issues_state" where
  "processFeatures items featureMap ftype formatProperty st =
    foldl (process_item featureMap ftype formatProperty) st items"

definition createCompatibilityIssues ::
  "string list \<Rightarrow> string list \<Rightarrow> string list \<Rightarrow> string list \<Rightarrow>
   (string \<rightharpoonup> CanIEmailFeature) \<Rightarrow> (string \<rightharpoonup> CanIEmailFeature) \<Rightarrow>
   (string \<rightharpoonup> CanIEmailFeature) \<Rightarrow> CompatibilityIssue list" where
  "createCompatibilityIssues extractedCssProperties extractedCssAtRules extractedHtmlElements
     extractedHtmlAttributes cssPropertyMap htmlElementMap htmlAttributeMap =
    (let st0 = ([], []);
         st1 = processFeatures extractedCssProperties cssPropertyMap CssType (\<lambda>item. item) st0;
         st2 = processFeatures extractedCssAtRules cssPropertyMap CssAtRule (\<lambda>item. item) st1;
         st3 = processFeatures extractedHtmlElements htmlElementMap HtmlElement
                 (\<lambda>el. ''<'' @ el @ ''>'') st2;
         st4 = processFeatures extractedHtmlAttributes htmlAttributeMap HtmlAttribute
                 (\<lambda>item. item) st3
     in fst st4)"

section \<open>The reference index builders\<close>

text \<open>
  A JavaScript \<open>Map\<close> that is only read with \<open>get\<close> and \<open>has\<close> is a map \<open>string \<rightharpoonup> feature\<close>;
  \<open>map.set(k, v)\<close> is \<open>m(k \<mapsto> v)\<close> and replaces the value of a key that is present.
\<close>

type_synonym feature_map = "string \<rightharpoonup> CanIEmailFeature"

text \<open>\<open>s.replace(/-/g, '-')\<close>: every dash is replaced by a dash.\<close>

definition replace_dashes :: "string \<Rightarrow> string" where
  "replace_dashes s = concat (map (\<lambda>c. if c = CHR ''-'' then ''-'' else [c]) s)"

text \<open>\<open>keywords.split(',').map((k) => k.trim().toLowerCase())\<close>\<close>

definition split_keywords :: "string \<Rightarrow> string list" where
  "split_keywords ks = map (\<lambda>k. toLowerCase (trim k)) (split_on CHR '','' ks)"

subsection \<open>buildCssPropertyMap\<close>

definition css_feature_step :: "feature_map \<Rightarrow> CanIEmailFeature \<Rightarrow> feature_map" where
  "css_feature_step m f =
    (if category f \<noteq> Css then m
     else
       let propertyName = replace_dashes (strip_prefix ''css-'' (slug f));
           m1 = m(propertyName \<mapsto> f);
           titleLower = toLowerCase (title f);
           m2 = (if titleLower \<noteq> propertyName then m1(titleLower \<mapsto> f) else m1)
       in (case keywords f of
             None \<Rightarrow> m2
           | Some ks \<Rightarrow>
              if ks = [] then m2
              else foldl (\<lambda>m keyword. if keyword \<noteq> [] \<and> m keyword = None
                                       then m(keyword \<mapsto> f) else m)
                     m2 (split_keywords ks)))"

definition buildCssPropertyMap :: "CanIEmailFeature list \<Rightarrow> feature_map" where
  "buildCssPropertyMap features = foldl css_feature_step Map.empty features"

subsection \<open>buildHtmlElementMap\<close>

text \<open>\<open>/<([a-z0-9-]+)>/i\<close> at the start of the input: the capture.\<close>

definition match_bracket_tag :: "string \<Rightarrow> string option" where
  "match_bracket_tag s =
    (case s of
       [] \<Rightarrow> None
     | c # r \<Rightarrow>
        if c = CHR ''<'' \<and> takeWhile is_word_char r \<noteq> []
           \<and> starts_with (dropWhile is_word_char r) ''>''
        then Some (takeWhile is_word_char r) else None)"

text \<open>\<open>/^([a-z0-9-]+)\s+element/i\<close>: anchored at the start of the title.\<close>

definition match_element_title :: "string \<Rightarrow> string option" where
  "match_element_title s =
    (let name = takeWhile is_word_char s;
         r = dropWhile is_word_char s
     in if name \<noteq> [] \<and> takeWhile is_space r \<noteq> []
           \<and> starts_with_ci (dropWhile is_space r) ''element''
        then Some name else None)"

definition html_element_step :: "feature_map \<Rightarrow> CanIEmailFeature \<Rightarrow> feature_map" where
  "html_element_step m f =
    (if category f \<noteq> Html then m
     else
       let slugElement = toLowerCase (strip_prefix ''html-'' (slug f));
           m1 = (if slugElement \<noteq> [] \<and> \<not> str_includes slugElement ''attribute''
                 then m(slugElement \<mapsto> f) else m);
           m2 = (case first_match match_bracket_tag (title f) of
                   Some t \<Rightarrow> m1(toLowerCase t \<mapsto> f)
                 | None \<Rightarrow> m1);
           m3 = (case match_element_title (title f) of
                   Some e \<Rightarrow> m2(toLowerCase e \<mapsto> f)
                 | None \<Rightarrow> m2)
       in (case keywords f of
             None \<Rightarrow> m3
           | Some ks \<Rightarrow>
              if ks = [] then m3
              else foldl (\<lambda>m keyword. if keyword \<noteq> [] \<and> \<not> str_includes keyword '' ''
                                          \<and> m keyword = None
                                       then m(keyword \<mapsto> f) else m)
                     m3 (split_keywords ks)))"

definition buildHtmlElementMap :: "CanIEmailFeature list \<Rightarrow> feature_map" where
  "buildHtmlElementMap features = foldl html_element_step Map.empty features"

subsection \<open>buildHtmlAttributeMap\<close>

text \<open>\<open>/([a-z-]+)\s+attribute/i\<close> at the start of the input: the capture.\<close>

definition match_attribute_title :: "string \<Rightarrow> string option" where
  "match_attribute_title s =
    (let name = takeWhile is_name_char s;
         r = dropWhile is_name_char s
     in if name \<noteq> [] \<and> takeWhile is_space r \<noteq> []
           \<and> starts_with_ci (dropWhile is_space r) ''attribute''
        then Some name else None)"

definition html_attribute_step :: "feature_map \<Rightarrow> CanIEmailFeature \<Rightarrow> feature_map" where
  "html_attribute_step m f =
    (if category f \<noteq> Html then m
     else
       let m1 = (case first_match match_attribute_title (title f) of
                   Some a \<Rightarrow> m(toLowerCase a \<mapsto> f)
                 | None \<Rightarrow> m);
           m2 = (if str_includes (slug f) ''attribute''
                 then m1(strip_suffix ''-attribute'' (strip_prefix ''html-'' (slug f)) \<mapsto> f)
                 else m1)
       in (case keywords f of
             None \<Rightarrow> m2
           | Some ks \<Rightarrow>
              if ks = [] then m2
              else foldl (\<lambda>m keyword. if keyword \<noteq> [] \<and> \<not> str_includes keyword '' ''
                                          \<and> m keyword = None
                                       then m(keyword \<mapsto> f) else m)
                     m2 (split_keywords ks)))"

definition buildHtmlAttributeMap :: "CanIEmailFeature list \<Rightarrow> feature_map" where
  "buildHtmlAttributeMap features = foldl html_attribute_step Map.empty features"

section \<open>The markup feature extractor (feature-extractor.ts)\<close>

subsection \<open>The parsed style sheet\<close>

text \<open>
  The nodes of a PostCSS tree: a declaration (\<open>prop\<close>, \<open>value\<close>), an at-rule (\<open>name\<close>,
  \<open>params\<close>, children), a rule (selector, children) and a comment. A \<open>Root\<close> is the list of
  its children. \<open>root.walk\<close> calls its callback on every descendant, a node before its
  children.
\<close>

datatype css_node =
    Decl string string
  | AtRule string string "css_node list"
  | Rule string "css_node list"
  | Comment string

type_synonym Root = "css_node list"

fun walk_node :: "css_node \<Rightarrow> css_node list" where
  "walk_node (Decl p v) = [Decl p v]"
| "walk_node (AtRule n ps children) = AtRule n ps children # concat (map walk_node children)"
| "walk_node (Rule sel children) = Rule sel children # concat (map walk_node children)"
| "walk_node (Comment t) = [Comment t]"

definition walk :: "Root \<Rightarrow> css_node list" where
  "walk root = concat (map walk_node root)"

text \<open>
  The parser \<open>postcss-safe-parser\<close> is a library: it is a parameter of the extractor. It
  returns a tree or throws.
\<close>

datatype js_error = Thrown string

type_synonym css_parser = "string \<Rightarrow> js_error + Root"

subsection \<open>Searching for a literal\<close>

text \<open>
  The first suffix of the input that satisfies \<open>P\<close>, with the text before it: the lazy
  \<open>[\s\S]*?\<close> followed by a literal.
\<close>

fun split_where :: "(string \<Rightarrow> bool) \<Rightarrow> string \<Rightarrow> (string \<times> string) option" where
  "split_where P [] = (if P [] then Some ([], []) else None)"
| "split_where P (c # cs) =
     (if P (c # cs) then Some ([], c # cs)
      else map_option (\<lambda>(before, rest). (c # before, rest)) (split_where P cs))"

text \<open>\<open>regex.test(s)\<close>: the expression matches somewhere.\<close>

definition regex_test :: "(string \<Rightarrow> bool) \<Rightarrow> string \<Rightarrow> bool" where
  "regex_test P s = (split_where P s \<noteq> None)"

text \<open>
  \<open>s.replace(regex, '')\<close> for an expression with the \<open>g\<close> flag: every match is removed, each
  search starting where the last match ended. The matcher gives the length of the match
  (at least one character for the expression of this program).
\<close>

fun remove_all :: "(string \<Rightarrow> nat option) \<Rightarrow> string \<Rightarrow> string" where
  "remove_all m [] = []"
| "remove_all m (c # cs) =
     (case m (c # cs) of
        None \<Rightarrow> c # remove_all m cs
      | Some n \<Rightarrow> remove_all m (drop (n - 1) cs))"

subsection \<open>extractValueFeatures\<close>

text \<open>A literal under the \<open>i\<close> flag, and \<open>name\s*\(\<close> under the \<open>i\<close> flag.\<close>

definition match_literal :: "string \<Rightarrow> string \<Rightarrow> bool" where
  "match_literal lit s = starts_with_ci s lit"

definition match_call :: "string \<Rightarrow> string \<Rightarrow> bool" where
  "match_call name s =
     (starts_with_ci s name \<and> starts_with (dropWhile is_space (drop (length name) s)) ''('')"

definition cssFeatures :: "(string \<times> (string \<Rightarrow> bool)) list" where
  "cssFeatures =
    [(''linear-gradient'', match_literal ''linear-gradient''),
     (''radial-gradient'', match_literal ''radial-gradient''),
     (''conic-gradient'', match_literal ''conic-gradient''),
     (''repeating-linear-gradient'', match_literal ''repeating-linear-gradient''),
     (''repeating-radial-gradient'', match_literal ''repeating-radial-gradient''),
     (''calc'', match_call ''calc''),
     (''css variables'', match_call ''var''),
     (''clamp'', match_call ''clamp''),
     (''min'', match_call ''min''),
     (''max'', match_call ''max''),
     (''fit-content'', match_literal ''fit-content''),
     (''min-content'', match_literal ''min-content''),
     (''max-content'', match_literal ''max-content'')]"

definition extractValueFeatures :: "string \<Rightarrow> string list \<Rightarrow> string list" where
  "extractValueFeatures v properties =
     foldl (\<lambda>props (feat, pattern). if regex_test pattern v then set_add feat props else props)
       properties cssFeatures"

subsection \<open>extractPropertiesFromAst\<close>

text \<open>\<open>prop.replace(/^-(?:webkit|moz|ms|o)-/, '')\<close>\<close>

definition strip_vendor_prefix :: "string \<Rightarrow> string" where
  "strip_vendor_prefix prop =
    (if starts_with prop ''-webkit-'' then drop 8 prop
     else if starts_with prop ''-moz-'' then drop 5 prop
     else if starts_with prop ''-ms-'' then drop 4 prop
     else if starts_with prop ''-o-'' then drop 3 prop
     else prop)"

text \<open>
  The state of the extraction from a tree: the property set and the map \<open>values\<close> from a
  property name to the set of its values.
\<close>

type_synonym value_map = "string \<rightharpoonup> string list"

definition decl_step :: "string list \<times> value_map \<Rightarrow> css_node \<Rightarrow> string list \<times> value_map" where
  "decl_step st node =
    (case node of
       Decl p v \<Rightarrow>
         let properties = fst st;
             vals = snd st;
             prop = toLowerCase p;
             isVendorProperty = starts_with prop ''-'';
             properties1 = (if isVendorProperty
                            then set_add (strip_vendor_prefix prop) properties
                            else set_add prop properties);
             val = toLowerCase v;
             vals1 = (if vals prop = None then vals(prop \<mapsto> []) else vals);
             vals2 = vals1(prop \<mapsto> set_add val (case vals1 prop of None \<Rightarrow> [] | Some s \<Rightarrow> s))
         in (extractValueFeatures val properties1, vals2)
     | _ \<Rightarrow> st)"

definition extractPropertiesFromAst ::
  "Root \<Rightarrow> string list \<times> value_map \<Rightarrow> string list \<times> value_map" where
  "extractPropertiesFromAst root st = foldl decl_step st (walk root)"

subsection \<open>extractAtRulesFromAst and extractMediaFeatures\<close>

text \<open>\<open>/\(\s*([a-z-]+)\s*(?::|,|\))/gi\<close> at the start of the input: capture and length.\<close>

definition match_media_feature :: "string \<Rightarrow> (string \<times> nat) option" where
  "match_media_feature s =
    (case s of
       [] \<Rightarrow> None
     | c # r \<Rightarrow>
        let r1 = dropWhile is_space r;
            name = takeWhile is_name_char r1;
            r2 = dropWhile is_space (dropWhile is_name_char r1)
        in if c = CHR ''('' \<and> name \<noteq> []
              \<and> (starts_with r2 '':'' \<or> starts_with r2 '','' \<or> starts_with r2 '')'')
           then Some (name, length s - length (tl r2)) else None)"

definition extractMediaFeatures :: "string \<Rightarrow> string list \<Rightarrow> string list" where
  "extractMediaFeatures params atRules =
     foldl (\<lambda>rules feat. set_add (''@media ('' @ toLowerCase feat @ '')'') rules)
       atRules (exec_all match_media_feature params)"

definition at_rule_step :: "string list \<Rightarrow> css_node \<Rightarrow> string list" where
  "at_rule_step atRules node =
    (case node of
       AtRule name params children \<Rightarrow>
         let ruleName = ''@'' @ toLowerCase name;
             rules1 = set_add ruleName atRules;
             rules2 = (if toLowerCase name = ''media'' \<and> params \<noteq> []
                       then extractMediaFeatures params rules1 else rules1)
         in if toLowerCase name = ''supports'' then set_add ''@supports'' rules2 else rules2
     | _ \<Rightarrow> atRules)"

definition extractAtRulesFromAst :: "Root \<Rightarrow> string list \<Rightarrow> string list" where
  "extractAtRulesFromAst root atRules = foldl at_rule_step atRules (walk root)"

subsection \<open>The fallbacks extractPropertiesSimple and extractAtRulesSimple\<close>

text \<open>\<open>/\/\*[\s\S]*?\*\//g\<close> at the start of the input: the length of the comment.\<close>

definition match_comment :: "string \<Rightarrow> nat option" where
  "match_comment s =
    (if starts_with s ''/*''
     then (case split_where (\<lambda>t. starts_with t ''*/'') (drop 2 s) of
             None \<Rightarrow> None
           | Some (body, rest) \<Rightarrow> Some (2 + length body + 2))
     else None)"

text \<open>\<open>/([a-z-]+)\s*:/gi\<close> at the start of the input.\<close>

definition match_property :: "string \<Rightarrow> (string \<times> nat) option" where
  "match_property s =
    (let name = takeWhile is_name_char s;
         r = dropWhile is_space (dropWhile is_name_char s)
     in if name \<noteq> [] \<and> starts_with r '':''
        then Some (name, length s - length (tl r)) else None)"

definition extractPropertiesSimple :: "string \<Rightarrow> string list \<Rightarrow> string list" where
  "extractPropertiesSimple css properties =
     foldl (\<lambda>props m.
              let property = toLowerCase m
              in if length property > 1 \<and> \<not> starts_with property ''-''
                 then set_add property props else props)
       properties (exec_all match_property (remove_all match_comment css))"

text \<open>\<open>/@([a-z-]+)/gi\<close> at the start of the input.\<close>

definition match_at_rule :: "string \<Rightarrow> (string \<times> nat) option" where
  "match_at_rule s =
    (case s of
       [] \<Rightarrow> None
     | c # r \<Rightarrow>
        if c = CHR ''@'' \<and> takeWhile is_name_char r \<noteq> []
        then Some (takeWhile is_name_char r, 1 + length (takeWhile is_name_char r))
        else None)"

definition extractAtRulesSimple :: "string \<Rightarrow> string list \<Rightarrow> string list" where
  "extractAtRulesSimple css atRules =
     foldl (\<lambda>rules m. set_add (''@'' @ toLowerCase m) rules) atRules (exec_all match_at_rule css)"

subsection \<open>extractInlineStyles and extractStyleTags\<close>

definition is_quote :: "char \<Rightarrow> bool" where
  "is_quote c = (c = CHR 0x22 \<or> c = CHR 0x27)"

text \<open>\<open>/style\s*=\s*["']([^"']+)["']/gi\<close> at the start of the input: capture and length.\<close>

definition match_inline_style :: "string \<Rightarrow> (string \<times> nat) option" where
  "match_inline_style s =
    (let r1 = dropWhile is_space (drop 5 s);
         r2 = dropWhile is_space (drop 1 r1);
         r3 = drop 1 r2;
         content = takeWhile (\<lambda>c. \<not> is_quote c) r3;
         r4 = dropWhile (\<lambda>c. \<not> is_quote c) r3
     in if starts_with_ci s ''style'' \<and> starts_with r1 ''=''
           \<and> r2 \<noteq> [] \<and> is_quote (hd r2) \<and> content \<noteq> [] \<and> r4 \<noteq> []
        then Some (content, length s - length (tl r4)) else None)"

text \<open>\<open>/<style[^>]*>([\s\S]*?)<\/style>/gi\<close> at the start of the input.\<close>

definition match_style_tag :: "string \<Rightarrow> (string \<times> nat) option" where
  "match_style_tag s =
    (let r1 = dropWhile (\<lambda>c. c \<noteq> CHR ''>'') (drop 6 s)
     in if starts_with_ci s ''<style'' \<and> r1 \<noteq> []
        then (case split_where (\<lambda>t. starts_with_ci t ''</style>'') (tl r1) of
                None \<Rightarrow> None
              | Some (content, rest) \<Rightarrow> Some (content, length s - length (drop 8 rest)))
        else None)"

text \<open>
  The body of each loop is a \<open>try\<close> around the parser and the extraction from its tree,
  with the lenient extraction from the same text in the \<open>catch\<close>.
\<close>

definition inline_style_step ::
  "css_parser \<Rightarrow> string list \<times> value_map \<Rightarrow> string \<Rightarrow> string list \<times> value_map" where
  "inline_style_step safeParser st styleContent =
    (let wrappedCss = ''* { '' @ styleContent @ '' }''
     in case safeParser wrappedCss of
          Inr root \<Rightarrow> extractPropertiesFromAst root st
        | Inl e \<Rightarrow> (extractPropertiesSimple styleContent (fst st), snd st))"

definition extractInlineStyles ::
  "css_parser \<Rightarrow> string \<Rightarrow> string list \<times> value_map \<Rightarrow> string list \<times> value_map" where
  "extractInlineStyles safeParser html st =
     foldl (inline_style_step safeParser) st (exec_all match_inline_style html)"

text \<open>The state of \<open>extractStyleTags\<close>: properties, at-rules and values.\<close>

type_synonym style_state = "string list \<times> string list \<times> value_map"

definition style_tag_step :: "css_parser \<Rightarrow> style_state \<Rightarrow> string \<Rightarrow> style_state" where
  "style_tag_step safeParser st cssContent =
    (case st of (properties, atRules, vals) \<Rightarrow>
       (case safeParser cssContent of
          Inr root \<Rightarrow>
            (fst (extractPropertiesFromAst root (properties, vals)),
             extractAtRulesFromAst root atRules,
             snd (extractPropertiesFromAst root (properties, vals)))
        | Inl e \<Rightarrow>
            (extractPropertiesSimple cssContent properties,
             extractAtRulesSimple cssContent atRules,
             vals)))"

definition extractStyleTags :: "css_parser \<Rightarrow> string \<Rightarrow> style_state \<Rightarrow> style_state" where
  "extractStyleTags safeParser html st =
     foldl (style_tag_step safeParser) st (exec_all match_style_tag html)"

subsection \<open>extractHtmlElements and extractHtmlAttributes\<close>

text \<open>\<open>/<([a-z][a-z0-9-]*)/gi\<close> at the start of the input.\<close>

definition match_tag :: "string \<Rightarrow> (string \<times> nat) option" where
  "match_tag s =
    (case s of
       c # a # r \<Rightarrow>
         if c = CHR ''<'' \<and> is_alpha a
         then Some (a # takeWhile is_word_char r, 2 + length (takeWhile is_word_char r))
         else None
     | _ \<Rightarrow> None)"

definition extractHtmlElements :: "string \<Rightarrow> string list" where
  "extractHtmlElements html =
     foldl (\<lambda>elements m. set_add (toLowerCase m) elements) [] (exec_all match_tag html)"

text \<open>\<open>/\s([a-z][a-z0-9-]*)\s*=/gi\<close> at the start of the input.\<close>

definition match_attribute :: "string \<Rightarrow> (string \<times> nat) option" where
  "match_attribute s =
    (case s of
       c # a # r \<Rightarrow>
         let r2 = dropWhile is_space (dropWhile is_word_char r)
         in if is_space c \<and> is_alpha a \<and> starts_with r2 ''=''
            then Some (a # takeWhile is_word_char r, length s - length (tl r2))
            else None
     | _ \<Rightarrow> None)"

definition extractHtmlAttributes :: "string \<Rightarrow> string list" where
  "extractHtmlAttributes html =
     foldl (\<lambda>attributes m. set_add (toLowerCase m) attributes) [] (exec_all match_attribute html)"

subsection \<open>extractFeatures\<close>

record ExtractedFeatures =
  cssAtRules :: "string list"
  cssProperties :: "string list"
  htmlAttributes :: "string list"
  htmlElements :: "string list"

definition extractFeatures :: "css_parser \<Rightarrow> string \<Rightarrow> ExtractedFeatures" where
  "extractFeatures safeParser html =
    (let inline = extractInlineStyles safeParser html ([], Map.empty);
         styled = extractStyleTags safeParser html (fst inline, [], snd inline)
     in \<lparr>cssAtRules = fst (snd styled),
         cssProperties = fst styled,
         htmlAttributes = extractHtmlAttributes html,
         htmlElements = extractHtmlElements html\<rparr>)"

section \<open>Notions used to state the properties\<close>

subsection \<open>The classifier\<close>

text \<open>The four buckets of a summary, one after the other.\<close>

definition buckets :: "Summary \<Rightarrow> MajorClient list" where
  "buckets s = supported s @ partial s @ unsupported s @ unknown s"

text \<open>The issue that \<open>processFeatures\<close> pushes for a feature, its type and its property.\<close>

definition make_issue :: "CanIEmailFeature \<Rightarrow> FeatureType \<Rightarrow> string \<Rightarrow> CompatibilityIssue" where
  "make_issue f ftype prop =
     \<lparr>feature = f, featureType = ftype, property = prop,
      severity = severity_of (getFeatureSupportSummary f), summary = getFeatureSupportSummary f\<rparr>"

text \<open>
  The candidates of one call of \<open>processFeatures\<close>: for every identifier that the mapping
  resolves, in iteration order, the issue it would give if no slug were ever skipped.
\<close>

definition candidates ::
  "string list \<Rightarrow> (string \<rightharpoonup> CanIEmailFeature) \<Rightarrow> FeatureType \<Rightarrow> (string \<Rightarrow> string) \<Rightarrow>
   CompatibilityIssue list" where
  "candidates items featureMap ftype formatProperty =
     List.map_filter
       (\<lambda>item. map_option (\<lambda>f. make_issue f ftype (formatProperty item)) (featureMap item)) items"

text \<open>
  The candidates of the four calls in the order of the calls: CSS properties, CSS at-rules,
  HTML elements, HTML attributes.
\<close>

definition all_candidates ::
  "string list \<Rightarrow> string list \<Rightarrow> string list \<Rightarrow> string list \<Rightarrow>
   (string \<rightharpoonup> CanIEmailFeature) \<Rightarrow> (string \<rightharpoonup> CanIEmailFeature) \<Rightarrow>
   (string \<rightharpoonup> CanIEmailFeature) \<Rightarrow> CompatibilityIssue list" where
  "all_candidates ps ars els ats cm em am =
     candidates ps cm CssType (\<lambda>item. item) @
     candidates ars cm CssAtRule (\<lambda>item. item) @
     candidates els em HtmlElement (\<lambda>el. ''<'' @ el @ ''>'') @
     candidates ats am HtmlAttribute (\<lambda>item. item)"

definition add_issue :: "issues_state \<Rightarrow> CompatibilityIssue \<Rightarrow> issues_state" where
  "add_issue st i =
     (if slug (feature i) \<in> set (snd st) then st
      else (fst st @ [i], snd st @ [slug (feature i)]))"

subsection \<open>The index builders\<close>

text \<open>
  The keys that a builder registers for a feature with \<open>map.set\<close> outright (from the slug and
  the title), and the keys that it registers from the keyword list only when the map does
  not hold them yet.
\<close>

definition keyword_list :: "CanIEmailFeature \<Rightarrow> string list" where
  "keyword_list f = (case keywords f of None \<Rightarrow> [] | Some ks \<Rightarrow> if ks = [] then [] else split_keywords ks)"

definition css_primary_keys :: "CanIEmailFeature \<Rightarrow> string list" where
  "css_primary_keys f =
     (if category f = Css
      then [replace_dashes (strip_prefix ''css-'' (slug f)), toLowerCase (title f)] else [])"

definition css_keyword_keys :: "CanIEmailFeature \<Rightarrow> string list" where
  "css_keyword_keys f =
     (if category f = Css then filter (\<lambda>k. k \<noteq> []) (keyword_list f) else [])"

definition element_primary_keys :: "CanIEmailFeature \<Rightarrow> string list" where
  "element_primary_keys f =
     (if category f = Html
      then (if toLowerCase (strip_prefix ''html-'' (slug f)) \<noteq> []
               \<and> \<not> str_includes (toLowerCase (strip_prefix ''html-'' (slug f))) ''attribute''
            then [toLowerCase (strip_prefix ''html-'' (slug f))] else [])
         @ (case first_match match_bracket_tag (title f) of Some t \<Rightarrow> [toLowerCase t] | None \<Rightarrow> [])
         @ (case match_element_title (title f) of Some e \<Rightarrow> [toLowerCase e] | None \<Rightarrow> [])
      else [])"

definition html_keyword_keys :: "CanIEmailFeature \<Rightarrow> string list" where
  "html_keyword_keys f =
     (if category f = Html
      then filter (\<lambda>k. k \<noteq> [] \<and> \<not> str_includes k '' '') (keyword_list f) else [])"

definition attribute_primary_keys :: "CanIEmailFeature \<Rightarrow> string list" where
  "attribute_primary_keys f =
     (if category f = Html
      then (case first_match match_attribute_title (title f) of Some a \<Rightarrow> [toLowerCase a] | None \<Rightarrow> [])
         @ (if str_includes (slug f) ''attribute''
            then [strip_suffix ''-attribute'' (strip_prefix ''html-'' (slug f))] else [])
      else [])"

text \<open>
  Registering a list of keys for a feature: unconditionally, and only where absent. The
  lookup that the builders are compared with: the last feature of the dataset that
  registers the key outright, and, when there is none, the first feature that has it as a
  keyword.
\<close>

definition assign_all :: "'f \<Rightarrow> (string \<rightharpoonup> 'f) \<Rightarrow> string list \<Rightarrow> (string \<rightharpoonup> 'f)" where
  "assign_all f m ks = foldl (\<lambda>m k. m(k \<mapsto> f)) m ks"

definition assign_new :: "'f \<Rightarrow> (string \<rightharpoonup> 'f) \<Rightarrow> string list \<Rightarrow> (string \<rightharpoonup> 'f)" where
  "assign_new f m ks = foldl (\<lambda>m k. if m k = None then m(k \<mapsto> f) else m) m ks"

definition register :: "('f \<Rightarrow> string list) \<Rightarrow> ('f \<Rightarrow> string list) \<Rightarrow> (string \<rightharpoonup> 'f) \<Rightarrow> 'f \<Rightarrow> (string \<rightharpoonup> 'f)" where
  "register prim kws m f = assign_new f (assign_all f m (prim f)) (kws f)"

definition resolve :: "('f \<Rightarrow> string list) \<Rightarrow> ('f \<Rightarrow> string list) \<Rightarrow> 'f list \<Rightarrow> string \<Rightarrow> 'f option" where
  "resolve prim kws fs k =
     (case find (\<lambda>f. k \<in> set (prim f)) (rev fs) of
        Some f \<Rightarrow> Some f
      | None \<Rightarrow> find (\<lambda>f. k \<in> set (kws f)) fs)"

subsection \<open>The extractor\<close>

definition vendor_prefixes :: "string list" where
  "vendor_prefixes = [''-webkit-'', ''-moz-'', ''-ms-'', ''-o-'']"

text \<open>The value set of property \<open>k\<close> in \<open>values\<close> holds \<open>x\<close>.\<close>

definition has_value :: "value_map \<Rightarrow> string \<Rightarrow> string \<Rightarrow> bool" where
  "has_value vals k x = (case vals k of None \<Rightarrow> False | Some vs \<Rightarrow> x \<in> set vs)"

text \<open>An identifier without upper-case letters, and a list of such identifiers.\<close>

definition lowercase :: "string \<Rightarrow> bool" where
  "lowercase s = list_all (\<lambda>c. \<not> is_upper c) s"

definition all_lowercase :: "string list \<Rightarrow> bool" where
  "all_lowercase xs = list_all lowercase xs"

subsection \<open>Sample data\<close>

definition sample_feature :: CanIEmailFeature where
  "sample_feature =
     \<lparr>category = Css, description = ''rounded corners'', keywords = Some ''rounded, corner'',
      notesByNum = Some [''1'' \<mapsto> ''Not with images.''],
      slug = ''css-border-radius'',
      stats = [''gmail'' \<mapsto> [''desktop-webmail'' \<mapsto> [(''2019-02'', ''n''), (''2020-01'', ''y'')]],
               ''outlook'' \<mapsto> [''windows'' \<mapsto> [(''2007'', ''n''), (''2019'', ''n'')],
                                  ''macos'' \<mapsto> [(''2016'', ''a #1'')],
                                  ''outlook-com'' \<mapsto> [(''2019-02'', ''a #7'')]],
               ''apple-mail'' \<mapsto> [''macos'' \<mapsto> [(''12'', ''yes'')]]],
      title = ''border-radius'', url = ''https://www.caniemail.com/features/css-border-radius/''\<rparr>"

definition sample_css_map :: "string \<rightharpoonup> CanIEmailFeature" where
  "sample_css_map = [''border-radius'' \<mapsto> sample_feature, ''rounded'' \<mapsto> sample_feature]"

definition sample_attr_map :: "string \<rightharpoonup> CanIEmailFeature" where
  "sample_attr_map = [''radius'' \<mapsto> sample_feature]"

definition dup_a :: CanIEmailFeature where
  "dup_a = \<lparr>category = Css, description = [], keywords = Some ''x, b'', notesByNum = None,
            slug = ''css-a'', stats = Map.empty, title = ''Shared'', url = []\<rparr>"

definition dup_b :: CanIEmailFeature where
  "dup_b = \<lparr>category = Css, description = [], keywords = Some ''x'', notesByNum = None,
            slug = ''css-b'', stats = Map.empty, title = ''shared'', url = []\<rparr>"

definition elem_a :: CanIEmailFeature where
  "elem_a = \<lparr>category = Html, description = [], keywords = Some ''media, audio'',
             notesByNum = None, slug = ''html-video'', stats = Map.empty,
             title = ''<video> element'', url = []\<rparr>"

definition elem_b :: CanIEmailFeature where
  "elem_b = \<lparr>category = Html, description = [], keywords = Some ''media'', notesByNum = None,
             slug = ''html-audio'', stats = Map.empty, title = ''<audio> element'', url = []\<rparr>"

definition attr_a :: CanIEmailFeature where
  "attr_a = \<lparr>category = Html, description = [], keywords = Some ''alignment, valign'',
             notesByNum = None, slug = ''html-align-attribute'', stats = Map.empty,
             title = ''align attribute'', url = []\<rparr>"

definition attr_b :: CanIEmailFeature where
  "attr_b = \<lparr>category = Html, description = [], keywords = Some ''alignment'',
             notesByNum = None, slug = ''html-valign-attribute'', stats = Map.empty,
             title = ''valign attribute'', url = []\<rparr>"

text \<open>A parser that knows one style sheet and throws on every other input.\<close>

definition sample_parser :: css_parser where
  "sample_parser css =
     (if css = ''@media (prefers-color-scheme: dark){}''
      then Inr [AtRule ''media'' ''(prefers-color-scheme: dark)'' []]
      else Inl (Thrown ''CssSyntaxError''))"

text \<open>
  A document whose only CSS is in a \<open>style\<close> attribute, the text of which holds an at-rule;
  a parser that reads the wrapped attribute text as a rule with an at-rule in it, and a
  parser that always throws.
\<close>

definition inline_only_html :: string where
  "inline_only_html = ''<p style='' @ [CHR 0x22] @ ''@media (x){color:red}'' @ [CHR 0x22] @ ''>''"

definition nesting_parser :: css_parser where
  "nesting_parser css = Inr [Rule ''*'' [AtRule ''media'' ''(x)'' [Decl ''color'' ''red'']]]"

definition throwing_parser :: css_parser where
  "throwing_parser css = Inl (Thrown ''CssSyntaxError'')"

text \<open>A style block that the parser rejects.\<close>

definition malformed_html :: string where
  "malformed_html = ''<style>@media x{.a{color:red;;; .b{</style>''"

text \<open>
  A style block with a media query written in upper case, and a parser that reads it as
  one at-rule.
\<close>

definition media_html :: string where
  "media_html = ''<style>@MEDIA screen and ( Min-Width : 600px){}</style>''"

definition media_parser :: css_parser where
  "media_parser css =
     (if css = ''@MEDIA screen and ( Min-Width : 600px){}''
      then Inr [AtRule ''MEDIA'' ''screen and ( Min-Width : 600px)'' []]
      else Inl (Thrown ''CssSyntaxError''))"

section \<open>Strings: evaluation and basic facts\<close>

lemma to_lower_char_code:
  "to_lower_char c = (if c = CHR ''A'' then CHR ''a'' else if c = CHR ''B'' then CHR ''b'' else if c = CHR ''C'' then CHR ''c'' else if c = CHR ''D'' then CHR ''d'' else if c = CHR ''E'' then CHR ''e'' else if c = CHR ''F'' then CHR ''f'' else if c = CHR ''G'' then CHR ''g'' else if c = CHR ''H'' then CHR ''h'' else if c = CHR ''I'' then CHR ''i'' else if c = CHR ''J'' then CHR ''j'' else if c = CHR ''K'' then CHR ''k'' else if c = CHR ''L'' then CHR ''l'' else if c = CHR ''M'' then CHR ''m'' else if c = CHR ''N'' then CHR ''n'' else if c = CHR ''O'' then CHR ''o'' else if c = CHR ''P'' then CHR ''p'' else if c = CHR ''Q'' then CHR ''q'' else if c = CHR ''R'' then CHR ''r'' else if c = CHR ''S'' then CHR ''s'' else if c = CHR ''T'' then CHR ''t'' else if c = CHR ''U'' then CHR ''u'' else if c = CHR ''V'' then CHR ''v'' else if c = CHR ''W'' then CHR ''w'' else if c = CHR ''X'' then CHR ''x'' else if c = CHR ''Y'' then CHR ''y'' else if c = CHR ''Z'' then CHR ''z'' else c)"
  by (simp add: to_lower_char_def upper_chars_def lower_chars_def)

lemmas lower_eval = toLowerCase_def to_lower_char_code

lemma to_lower_not_upper: "\<not> is_upper (to_lower_char c)"
  by (auto simp: to_lower_char_def is_upper_def upper_chars_def lower_chars_def)

lemma starts_with_iff: "starts_with s p \<longleftrightarrow> (\<exists>t. s = p @ t)"
  unfolding starts_with_def
  by (metis append_eq_conv_conj append_take_drop_id)

text \<open>The character functions on the printable ASCII characters, for evaluation.\<close>

lemma to_lower_char_lits:
  "to_lower_char (CHR '' '') = CHR '' ''" "to_lower_char (CHR ''!'') = CHR ''!''"
  "to_lower_char (CHR 0x22) = CHR 0x22" "to_lower_char (CHR ''#'') = CHR ''#''"
  "to_lower_char (CHR ''$'') = CHR ''$''" "to_lower_char (CHR ''%'') = CHR ''%''"
  "to_lower_char (CHR ''&'') = CHR ''&''" "to_lower_char (CHR 0x27) = CHR 0x27"
  "to_lower_char (CHR ''('') = CHR ''(''" "to_lower_char (CHR '')'') = CHR '')''"
  "to_lower_char (CHR ''*'') = CHR ''*''" "to_lower_char (CHR ''+'') = CHR ''+''"
  "to_lower_char (CHR '','') = CHR '',''" "to_lower_char (CHR ''-'') = CHR ''-''"
  "to_lower_char (CHR ''.'') = CHR ''.''" "to_lower_char (CHR ''/'') = CHR ''/''"
  "to_lower_char (CHR ''0'') = CHR ''0''" "to_lower_char (CHR ''1'') = CHR ''1''"
  "to_lower_char (CHR ''2'') = CHR ''2''" "to_lower_char (CHR ''3'') = CHR ''3''"
  "to_lower_char (CHR ''4'') = CHR ''4''" "to_lower_char (CHR ''5'') = CHR ''5''"
  "to_lower_char (CHR ''6'') = CHR ''6''" "to_lower_char (CHR ''7'') = CHR ''7''"
  "to_lower_char (CHR ''8'') = CHR ''8''" "to_lower_char (CHR ''9'') = CHR ''9''"
  "to_lower_char (CHR '':'') = CHR '':''" "to_lower_char (CHR '';'') = CHR '';''"
  "to_lower_char (CHR ''<'') = CHR ''<''" "to_lower_char (CHR ''='') = CHR ''=''"
  "to_lower_char (CHR ''>'') = CHR ''>''" "to_lower_char (CHR ''?'') = CHR ''?''"
  "to_lower_char (CHR ''@'') = CHR ''@''" "to_lower_char (CHR ''A'') = CHR ''a''"
  "to_lower_char (CHR ''B'') = CHR ''b''" "to_lower_char (CHR ''C'') = CHR ''c''"
  "to_lower_char (CHR ''D'') = CHR ''d''" "to_lower_char (CHR ''E'') = CHR ''e''"
  "to_lower_char (CHR ''F'') = CHR ''f''" "to_lower_char (CHR ''G'') = CHR ''g''"
  "to_lower_char (CHR ''H'') = CHR ''h''" "to_lower_char (CHR ''I'') = CHR ''i''"
  "to_lower_char (CHR ''J'') = CHR ''j''" "to_lower_char (CHR ''K'') = CHR ''k''"
  "to_lower_char (CHR ''L'') = CHR ''l''" "to_lower_char (CHR ''M'') = CHR ''m''"
  "to_lower_char (CHR ''N'') = CHR ''n''" "to_lower_char (CHR ''O'') = CHR ''o''"
  "to_lower_char (CHR ''P'') = CHR ''p''" "to_lower_char (CHR ''Q'') = CHR ''q''"
  "to_lower_char (CHR ''R'') = CHR ''r''" "to_lower_char (CHR ''S'') = CHR ''s''"
  "to_lower_char (CHR ''T'') = CHR ''t''" "to_lower_char (CHR ''U'') = CHR ''u''"
  "to_lower_char (CHR ''V'') = CHR ''v''" "to_lower_char (CHR ''W'') = CHR ''w''"
  "to_lower_char (CHR ''X'') = CHR ''x''" "to_lower_char (CHR ''Y'') = CHR ''y''"
  "to_lower_char (CHR ''Z'') = CHR ''z''" "to_lower_char (CHR ''['') = CHR ''[''"
  "to_lower_char (CHR 0x5C) = CHR 0x5C" "to_lower_char (CHR '']'') = CHR '']''"
  "to_lower_char (CHR ''^'') = CHR ''^''" "to_lower_char (CHR ''_'') = CHR ''_''"
  "to_lower_char (CHR 0x60) = CHR 0x60" "to_lower_char (CHR ''a'') = CHR ''a''"
  "to_lower_char (CHR ''b'') = CHR ''b''" "to_lower_char (CHR ''c'') = CHR ''c''"
  "to_lower_char (CHR ''d'') = CHR ''d''" "to_lower_char (CHR ''e'') = CHR ''e''"
  "to_lower_char (CHR ''f'') = CHR ''f''" "to_lower_char (CHR ''g'') = CHR ''g''"
  "to_lower_char (CHR ''h'') = CHR ''h''" "to_lower_char (CHR ''i'') = CHR ''i''"
  "to_lower_char (CHR ''j'') = CHR ''j''" "to_lower_char (CHR ''k'') = CHR ''k''"
  "to_lower_char (CHR ''l'') = CHR ''l''" "to_lower_char (CHR ''m'') = CHR ''m''"
  "to_lower_char (CHR ''n'') = CHR ''n''" "to_lower_char (CHR ''o'') = CHR ''o''"
  "to_lower_char (CHR ''p'') = CHR ''p''" "to_lower_char (CHR ''q'') = CHR ''q''"
  "to_lower_char (CHR ''r'') = CHR ''r''" "to_lower_char (CHR ''s'') = CHR ''s''"
  "to_lower_char (CHR ''t'') = CHR ''t''" "to_lower_char (CHR ''u'') = CHR ''u''"
  "to_lower_char (CHR ''v'') = CHR ''v''" "to_lower_char (CHR ''w'') = CHR ''w''"
  "to_lower_char (CHR ''x'') = CHR ''x''" "to_lower_char (CHR ''y'') = CHR ''y''"
  "to_lower_char (CHR ''z'') = CHR ''z''" "to_lower_char (CHR ''{'') = CHR ''{''"
  "to_lower_char (CHR ''|'') = CHR ''|''" "to_lower_char (CHR ''}'') = CHR ''}''"
  "to_lower_char (CHR ''~'') = CHR ''~''"
  by (simp_all add: to_lower_char_code)

lemma is_name_char_lits:
  "is_name_char (CHR '' '') = False" "is_name_char (CHR ''!'') = False" "is_name_char (CHR 0x22) = False"
  "is_name_char (CHR ''#'') = False" "is_name_char (CHR ''$'') = False" "is_name_char (CHR ''%'') = False"
  "is_name_char (CHR ''&'') = False" "is_name_char (CHR 0x27) = False" "is_name_char (CHR ''('') = False"
  "is_name_char (CHR '')'') = False" "is_name_char (CHR ''*'') = False" "is_name_char (CHR ''+'') = False"
  "is_name_char (CHR '','') = False" "is_name_char (CHR ''-'') = True" "is_name_char (CHR ''.'') = False"
  "is_name_char (CHR ''/'') = False" "is_name_char (CHR ''0'') = False" "is_name_char (CHR ''1'') = False"
  "is_name_char (CHR ''2'') = False" "is_name_char (CHR ''3'') = False" "is_name_char (CHR ''4'') = False"
  "is_name_char (CHR ''5'') = False" "is_name_char (CHR ''6'') = False" "is_name_char (CHR ''7'') = False"
  "is_name_char (CHR ''8'') = False" "is_name_char (CHR ''9'') = False" "is_name_char (CHR '':'') = False"
  "is_name_char (CHR '';'') = False" "is_name_char (CHR ''<'') = False" "is_name_char (CHR ''='') = False"
  "is_name_char (CHR ''>'') = False" "is_name_char (CHR ''?'') = False" "is_name_char (CHR ''@'') = False"
  "is_name_char (CHR ''A'') = True" "is_name_char (CHR ''B'') = True" "is_name_char (CHR ''C'') = True"
  "is_name_char (CHR ''D'') = True" "is_name_char (CHR ''E'') = True" "is_name_char (CHR ''F'') = True"
  "is_name_char (CHR ''G'') = True" "is_name_char (CHR ''H'') = True" "is_name_char (CHR ''I'') = True"
  "is_name_char (CHR ''J'') = True" "is_name_char (CHR ''K'') = True" "is_name_char (CHR ''L'') = True"
  "is_name_char (CHR ''M'') = True" "is_name_char (CHR ''N'') = True" "is_name_char (CHR ''O'') = True"
  "is_name_char (CHR ''P'') = True" "is_name_char (CHR ''Q'') = True" "is_name_char (CHR ''R'') = True"
  "is_name_char (CHR ''S'') = True" "is_name_char (CHR ''T'') = True" "is_name_char (CHR ''U'') = True"
  "is_name_char (CHR ''V'') = True" "is_name_char (CHR ''W'') = True" "is_name_char (CHR ''X'') = True"
  "is_name_char (CHR ''Y'') = True" "is_name_char (CHR ''Z'') = True" "is_name_char (CHR ''['') = False"
  "is_name_char (CHR 0x5C) = False" "is_name_char (CHR '']'') = False" "is_name_char (CHR ''^'') = False"
  "is_name_char (CHR ''_'') = False" "is_name_char (CHR 0x60) = False" "is_name_char (CHR ''a'') = True"
  "is_name_char (CHR ''b'') = True" "is_name_char (CHR ''c'') = True" "is_name_char (CHR ''d'') = True"
  "is_name_char (CHR ''e'') = True" "is_name_char (CHR ''f'') = True" "is_name_char (CHR ''g'') = True"
  "is_name_char (CHR ''h'') = True" "is_name_char (CHR ''i'') = True" "is_name_char (CHR ''j'') = True"
  "is_name_char (CHR ''k'') = True" "is_name_char (CHR ''l'') = True" "is_name_char (CHR ''m'') = True"
  "is_name_char (CHR ''n'') = True" "is_name_char (CHR ''o'') = True" "is_name_char (CHR ''p'') = True"
  "is_name_char (CHR ''q'') = True" "is_name_char (CHR ''r'') = True" "is_name_char (CHR ''s'') = True"
  "is_name_char (CHR ''t'') = True" "is_name_char (CHR ''u'') = True" "is_name_char (CHR ''v'') = True"
  "is_name_char (CHR ''w'') = True" "is_name_char (CHR ''x'') = True" "is_name_char (CHR ''y'') = True"
  "is_name_char (CHR ''z'') = True" "is_name_char (CHR ''{'') = False" "is_name_char (CHR ''|'') = False"
  "is_name_char (CHR ''}'') = False" "is_name_char (CHR ''~'') = False"
  by (simp_all add: is_name_char_def is_alpha_def is_lower_def is_upper_def lower_chars_def upper_chars_def)

lemma is_space_lits:
  "is_space (CHR '' '') = True" "is_space (CHR ''!'') = False" "is_space (CHR 0x22) = False"
  "is_space (CHR ''#'') = False" "is_space (CHR ''$'') = False" "is_space (CHR ''%'') = False"
  "is_space (CHR ''&'') = False" "is_space (CHR 0x27) = False" "is_space (CHR ''('') = False"
  "is_space (CHR '')'') = False" "is_space (CHR ''*'') = False" "is_space (CHR ''+'') = False"
  "is_space (CHR '','') = False" "is_space (CHR ''-'') = False" "is_space (CHR ''.'') = False"
  "is_space (CHR ''/'') = False" "is_space (CHR ''0'') = False" "is_space (CHR ''1'') = False"
  "is_space (CHR ''2'') = False" "is_space (CHR ''3'') = False" "is_space (CHR ''4'') = False"
  "is_space (CHR ''5'') = False" "is_space (CHR ''6'') = False" "is_space (CHR ''7'') = False"
  "is_space (CHR ''8'') = False" "is_space (CHR ''9'') = False" "is_space (CHR '':'') = False"
  "is_space (CHR '';'') = False" "is_space (CHR ''<'') = False" "is_space (CHR ''='') = False"
  "is_space (CHR ''>'') = False" "is_space (CHR ''?'') = False" "is_space (CHR ''@'') = False"
  "is_space (CHR ''A'') = False" "is_space (CHR ''B'') = False" "is_space (CHR ''C'') = False"
  "is_space (CHR ''D'') = False" "is_space (CHR ''E'') = False" "is_space (CHR ''F'') = False"
  "is_space (CHR ''G'') = False" "is_space (CHR ''H'') = False" "is_space (CHR ''I'') = False"
  "is_space (CHR ''J'') = False" "is_space (CHR ''K'') = False" "is_space (CHR ''L'') = False"
  "is_space (CHR ''M'') = False" "is_space (CHR ''N'') = False" "is_space (CHR ''O'') = False"
  "is_space (CHR ''P'') = False" "is_space (CHR ''Q'') = False" "is_space (CHR ''R'') = False"
  "is_space (CHR ''S'') = False" "is_space (CHR ''T'') = False" "is_space (CHR ''U'') = False"
  "is_space (CHR ''V'') = False" "is_space (CHR ''W'') = False" "is_space (CHR ''X'') = False"
  "is_space (CHR ''Y'') = False" "is_space (CHR ''Z'') = False" "is_space (CHR ''['') = False"
  "is_space (CHR 0x5C) = False" "is_space (CHR '']'') = False" "is_space (CHR ''^'') = False"
  "is_space (CHR ''_'') = False" "is_space (CHR 0x60) = False" "is_space (CHR ''a'') = False"
  "is_space (CHR ''b'') = False" "is_space (CHR ''c'') = False" "is_space (CHR ''d'') = False"
  "is_space (CHR ''e'') = False" "is_space (CHR ''f'') = False" "is_space (CHR ''g'') = False"
  "is_space (CHR ''h'') = False" "is_space (CHR ''i'') = False" "is_space (CHR ''j'') = False"
  "is_space (CHR ''k'') = False" "is_space (CHR ''l'') = False" "is_space (CHR ''m'') = False"
  "is_space (CHR ''n'') = False" "is_space (CHR ''o'') = False" "is_space (CHR ''p'') = False"
  "is_space (CHR ''q'') = False" "is_space (CHR ''r'') = False" "is_space (CHR ''s'') = False"
  "is_space (CHR ''t'') = False" "is_space (CHR ''u'') = False" "is_space (CHR ''v'') = False"
  "is_space (CHR ''w'') = False" "is_space (CHR ''x'') = False" "is_space (CHR ''y'') = False"
  "is_space (CHR ''z'') = False" "is_space (CHR ''{'') = False" "is_space (CHR ''|'') = False"
  "is_space (CHR ''}'') = False" "is_space (CHR ''~'') = False"
  by (simp_all add: is_space_def)

lemma is_word_char_lits:
  "is_word_char (CHR '' '') = False" "is_word_char (CHR ''!'') = False" "is_word_char (CHR 0x22) = False"
  "is_word_char (CHR ''#'') = False" "is_word_char (CHR ''$'') = False" "is_word_char (CHR ''%'') = False"
  "is_word_char (CHR ''&'') = False" "is_word_char (CHR 0x27) = False" "is_word_char (CHR ''('') = False"
  "is_word_char (CHR '')'') = False" "is_word_char (CHR ''*'') = False" "is_word_char (CHR ''+'') = False"
  "is_word_char (CHR '','') = False" "is_word_char (CHR ''-'') = True" "is_word_char (CHR ''.'') = False"
  "is_word_char (CHR ''/'') = False" "is_word_char (CHR ''0'') = True" "is_word_char (CHR ''1'') = True"
  "is_word_char (CHR ''2'') = True" "is_word_char (CHR ''3'') = True" "is_word_char (CHR ''4'') = True"
  "is_word_char (CHR ''5'') = True" "is_word_char (CHR ''6'') = True" "is_word_char (CHR ''7'') = True"
  "is_word_char (CHR ''8'') = True" "is_word_char (CHR ''9'') = True" "is_word_char (CHR '':'') = False"
  "is_word_char (CHR '';'') = False" "is_word_char (CHR ''<'') = False" "is_word_char (CHR ''='') = False"
  "is_word_char (CHR ''>'') = False" "is_word_char (CHR ''?'') = False" "is_word_char (CHR ''@'') = False"
  "is_word_char (CHR ''A'') = True" "is_word_char (CHR ''B'') = True" "is_word_char (CHR ''C'') = True"
  "is_word_char (CHR ''D'') = True" "is_word_char (CHR ''E'') = True" "is_word_char (CHR ''F'') = True"
  "is_word_char (CHR ''G'') = True" "is_word_char (CHR ''H'') = True" "is_word_char (CHR ''I'') = True"
  "is_word_char (CHR ''J'') = True" "is_word_char (CHR ''K'') = True" "is_word_char (CHR ''L'') = True"
  "is_word_char (CHR ''M'') = True" "is_word_char (CHR ''N'') = True" "is_word_char (CHR ''O'') = True"
  "is_word_char (CHR ''P'') = True" "is_word_char (CHR ''Q'') = True" "is_word_char (CHR ''R'') = True"
  "is_word_char (CHR ''S'') = True" "is_word_char (CHR ''T'') = True" "is_word_char (CHR ''U'') = True"
  "is_word_char (CHR ''V'') = True" "is_word_char (CHR ''W'') = True" "is_word_char (CHR ''X'') = True"
  "is_word_char (CHR ''Y'') = True" "is_word_char (CHR ''Z'') = True" "is_word_char (CHR ''['') = False"
  "is_word_char (CHR 0x5C) = False" "is_word_char (CHR '']'') = False" "is_word_char (CHR ''^'') = False"
  "is_word_char (CHR ''_'') = False" "is_word_char (CHR 0x60) = False" "is_word_char (CHR ''a'') = True"
  "is_word_char (CHR ''b'') = True" "is_word_char (CHR ''c'') = True" "is_word_char (CHR ''d'') = True"
  "is_word_char (CHR ''e'') = True" "is_word_char (CHR ''f'') = True" "is_word_char (CHR ''g'') = True"
  "is_word_char (CHR ''h'') = True" "is_word_char (CHR ''i'') = True" "is_word_char (CHR ''j'') = True"
  "is_word_char (CHR ''k'') = True" "is_word_char (CHR ''l'') = True" "is_word_char (CHR ''m'') = True"
  "is_word_char (CHR ''n'') = True" "is_word_char (CHR ''o'') = True" "is_word_char (CHR ''p'') = True"
  "is_word_char (CHR ''q'') = True" "is_word_char (CHR ''r'') = True" "is_word_char (CHR ''s'') = True"
  "is_word_char (CHR ''t'') = True" "is_word_char (CHR ''u'') = True" "is_word_char (CHR ''v'') = True"
  "is_word_char (CHR ''w'') = True" "is_word_char (CHR ''x'') = True" "is_word_char (CHR ''y'') = True"
  "is_word_char (CHR ''z'') = True" "is_word_char (CHR ''{'') = False" "is_word_char (CHR ''|'') = False"
  "is_word_char (CHR ''}'') = False" "is_word_char (CHR ''~'') = False"
  by (simp_all add: is_word_char_def is_alpha_def is_lower_def is_upper_def is_digit_def lower_chars_def upper_chars_def)

lemma is_alpha_lits:
  "is_alpha (CHR '' '') = False" "is_alpha (CHR ''!'') = False" "is_alpha (CHR 0x22) = False"
  "is_alpha (CHR ''#'') = False" "is_alpha (CHR ''$'') = False" "is_alpha (CHR ''%'') = False"
  "is_alpha (CHR ''&'') = False" "is_alpha (CHR 0x27) = False" "is_alpha (CHR ''('') = False"
  "is_alpha (CHR '')'') = False" "is_alpha (CHR ''*'') = False" "is_alpha (CHR ''+'') = False"
  "is_alpha (CHR '','') = False" "is_alpha (CHR ''-'') = False" "is_alpha (CHR ''.'') = False"
  "is_alpha (CHR ''/'') = False" "is_alpha (CHR ''0'') = False" "is_alpha (CHR ''1'') = False"
  "is_alpha (CHR ''2'') = False" "is_alpha (CHR ''3'') = False" "is_alpha (CHR ''4'') = False"
  "is_alpha (CHR ''5'') = False" "is_alpha (CHR ''6'') = False" "is_alpha (CHR ''7'') = False"
  "is_alpha (CHR ''8'') = False" "is_alpha (CHR ''9'') = False" "is_alpha (CHR '':'') = False"
  "is_alpha (CHR '';'') = False" "is_alpha (CHR ''<'') = False" "is_alpha (CHR ''='') = False"
  "is_alpha (CHR ''>'') = False" "is_alpha (CHR ''?'') = False" "is_alpha (CHR ''@'') = False"
  "is_alpha (CHR ''A'') = True" "is_alpha (CHR ''B'') = True" "is_alpha (CHR ''C'') = True"
  "is_alpha (CHR ''D'') = True" "is_alpha (CHR ''E'') = True" "is_alpha (CHR ''F'') = True"
  "is_alpha (CHR ''G'') = True" "is_alpha (CHR ''H'') = True" "is_alpha (CHR ''I'') = True"
  "is_alpha (CHR ''J'') = True" "is_alpha (CHR ''K'') = True" "is_alpha (CHR ''L'') = True"
  "is_alpha (CHR ''M'') = True" "is_alpha (CHR ''N'') = True" "is_alpha (CHR ''O'') = True"
  "is_alpha (CHR ''P'') = True" "is_alpha (CHR ''Q'') = True" "is_alpha (CHR ''R'') = True"
  "is_alpha (CHR ''S'') = True" "is_alpha (CHR ''T'') = True" "is_alpha (CHR ''U'') = True"
  "is_alpha (CHR ''V'') = True" "is_alpha (CHR ''W'') = True" "is_alpha (CHR ''X'') = True"
  "is_alpha (CHR ''Y'') = True" "is_alpha (CHR ''Z'') = True" "is_alpha (CHR ''['') = False"
  "is_alpha (CHR 0x5C) = False" "is_alpha (CHR '']'') = False" "is_alpha (CHR ''^'') = False"
  "is_alpha (CHR ''_'') = False" "is_alpha (CHR 0x60) = False" "is_alpha (CHR ''a'') = True"
  "is_alpha (CHR ''b'') = True" "is_alpha (CHR ''c'') = True" "is_alpha (CHR ''d'') = True"
  "is_alpha (CHR ''e'') = True" "is_alpha (CHR ''f'') = True" "is_alpha (CHR ''g'') = True"
  "is_alpha (CHR ''h'') = True" "is_alpha (CHR ''i'') = True" "is_alpha (CHR ''j'') = True"
  "is_alpha (CHR ''k'') = True" "is_alpha (CHR ''l'') = True" "is_alpha (CHR ''m'') = True"
  "is_alpha (CHR ''n'') = True" "is_alpha (CHR ''o'') = True" "is_alpha (CHR ''p'') = True"
  "is_alpha (CHR ''q'') = True" "is_alpha (CHR ''r'') = True" "is_alpha (CHR ''s'') = True"
  "is_alpha (CHR ''t'') = True" "is_alpha (CHR ''u'') = True" "is_alpha (CHR ''v'') = True"
  "is_alpha (CHR ''w'') = True" "is_alpha (CHR ''x'') = True" "is_alpha (CHR ''y'') = True"
  "is_alpha (CHR ''z'') = True" "is_alpha (CHR ''{'') = False" "is_alpha (CHR ''|'') = False"
  "is_alpha (CHR ''}'') = False" "is_alpha (CHR ''~'') = False"
  by (simp_all add: is_alpha_def is_lower_def is_upper_def lower_chars_def upper_chars_def)

lemmas char_eval = toLowerCase_def to_lower_char_lits is_name_char_lits is_space_lits
  is_word_char_lits is_alpha_lits


section \<open>The support resolver and the classifier: properties\<close>

subsection \<open>The support code pattern\<close>

lemma dropWhile_space_hash:
  "list_all is_space ws \<Longrightarrow> dropWhile is_space (ws @ CHR ''#'' # ds) = CHR ''#'' # ds"
  by (induction ws) (simp_all add: is_space_def)

lemma dropWhile_all: "list_all P ws \<Longrightarrow> dropWhile P ws = []"
  by (induction ws) simp_all

text \<open>
  \<open>matchLevel\<close> accepts exactly the strings of \<open>^([ynau])\s*(?:#(\d+))?$\<close>: a level letter,
  white space, and then nothing or \<open>#\<close> with at least one digit.
\<close>

lemma matchLevel_iff:
  "matchLevel raw = Some (l, n) \<longleftrightarrow>
     (\<exists>c ws. level_of_char c = Some l \<and> list_all is_space ws \<and>
        ((n = None \<and> raw = c # ws) \<or>
         (\<exists>ds. n = Some ds \<and> ds \<noteq> [] \<and> list_all is_digit ds \<and> raw = c # ws @ CHR ''#'' # ds)))"
proof
  assume m: "matchLevel raw = Some (l, n)"
  then obtain c rest where raw: "raw = c # rest" and lc: "level_of_char c = Some l"
    by (auto simp: matchLevel_def split: list.splits option.splits if_splits)
  let ?ws = "takeWhile is_space rest"
  have ws: "list_all is_space ?ws" by (simp add: list_all_iff) (meson set_takeWhileD)
  show "\<exists>c ws. level_of_char c = Some l \<and> list_all is_space ws \<and>
        ((n = None \<and> raw = c # ws) \<or>
         (\<exists>ds. n = Some ds \<and> ds \<noteq> [] \<and> list_all is_digit ds \<and> raw = c # ws @ CHR ''#'' # ds))"
  proof (cases "dropWhile is_space rest")
    case Nil
    with m raw lc have "n = None" by (simp add: matchLevel_def)
    moreover from Nil have "rest = ?ws"
      by (metis append_Nil2 takeWhile_dropWhile_id)
    ultimately show ?thesis using raw lc ws by metis
  next
    case (Cons h ds)
    with m raw lc have "h = CHR ''#''" "ds \<noteq> []" "list_all is_digit ds" "n = Some ds"
      by (auto simp: matchLevel_def split: if_splits)
    moreover from Cons have "rest = ?ws @ h # ds"
      by (metis takeWhile_dropWhile_id)
    ultimately show ?thesis using raw lc ws by metis
  qed
next
  assume "\<exists>c ws. level_of_char c = Some l \<and> list_all is_space ws \<and>
        ((n = None \<and> raw = c # ws) \<or>
         (\<exists>ds. n = Some ds \<and> ds \<noteq> [] \<and> list_all is_digit ds \<and> raw = c # ws @ CHR ''#'' # ds))"
  then show "matchLevel raw = Some (l, n)"
    by (auto simp: matchLevel_def dropWhile_space_hash dropWhile_all)
qed

subsection \<open>The summary\<close>

lemma summary_step_mset:
  "mset (buckets (summary_step f r c)) = mset (buckets r) + {#c#}"
  by (simp add: summary_step_def buckets_def split: option.splits)

lemma summary_over_mset:
  "mset (buckets (summary_over f cs r)) = mset (buckets r) + mset cs"
  unfolding summary_over_def
  by (induction cs arbitrary: r) (simp_all add: summary_step_mset)

lemma distinct_MAJOR_CLIENTS: "distinct MAJOR_CLIENTS"
  by (simp add: MAJOR_CLIENTS_def)

lemma unknown_mono:
  "set (unknown r) \<subseteq> set (unknown (summary_over f cs r))"
  unfolding summary_over_def
  by (induction cs arbitrary: r) (force simp: summary_step_def split: option.splits)+

lemma unknown_bucket:
  "c \<in> set cs \<Longrightarrow>
   (case getSupportLevel f (family c) (platform c) of None \<Rightarrow> True | Some s \<Rightarrow> level s = UNKNOWN) \<Longrightarrow>
   c \<in> set (unknown (summary_over f cs r))"
proof (induction cs arbitrary: r)
  case Nil
  then show ?case by simp
next
  case (Cons a cs)
  show ?case
  proof (cases "c = a")
    case True
    with Cons.prems have "c \<in> set (unknown (summary_step f r a))"
      by (auto simp: summary_step_def split: option.splits)
    then show ?thesis
      using unknown_mono [of "summary_step f r a" f cs] by (auto simp: summary_over_def)
  next
    case False
    with Cons.prems have "c \<in> set cs" by simp
    from Cons.IH [OF this Cons.prems(2)] show ?thesis by (simp add: summary_over_def)
  qed
qed

lemma sample_support_levels:
  "getSupportLevel sample_feature ''gmail'' ''desktop-webmail''
     = Some \<lparr>level = YES, note = None, version = ''2020-01''\<rparr>"
  "getSupportLevel sample_feature ''outlook'' ''windows''
     = Some \<lparr>level = NO, note = None, version = ''2019''\<rparr>"
  "getSupportLevel sample_feature ''outlook'' ''macos''
     = Some \<lparr>level = PARTIAL, note = Some ''Not with images.'', version = ''2016''\<rparr>"
  "getSupportLevel sample_feature ''outlook'' ''outlook-com''
     = Some \<lparr>level = PARTIAL, note = None, version = ''2019-02''\<rparr>"
  "getSupportLevel sample_feature ''apple-mail'' ''macos''
     = Some \<lparr>level = UNKNOWN, note = None, version = ''12''\<rparr>"
  "getSupportLevel sample_feature ''apple-mail'' ''ios'' = None"
  "getSupportLevel sample_feature ''yahoo'' ''desktop-webmail'' = None"
  "getSupportLevel sample_feature ''samsung-email'' ''android'' = None"
  by (simp_all add: getSupportLevel_def sample_feature_def matchLevel_def level_of_char_def
      is_space_def is_digit_def)

lemma sample_summary:
  "getFeatureSupportSummary sample_feature =
     \<lparr>partial = [\<lparr>family = ''outlook'', label = ''Outlook Mac'', platform = ''macos''\<rparr>,
                 \<lparr>family = ''outlook'', label = ''Outlook.com'', platform = ''outlook-com''\<rparr>],
      supported = [\<lparr>family = ''gmail'', label = ''Gmail'', platform = ''desktop-webmail''\<rparr>],
      unknown = [\<lparr>family = ''apple-mail'', label = ''Apple Mail'', platform = ''macos''\<rparr>,
                 \<lparr>family = ''apple-mail'', label = ''iOS Mail'', platform = ''ios''\<rparr>,
                 \<lparr>family = ''yahoo'', label = ''Yahoo'', platform = ''desktop-webmail''\<rparr>,
                 \<lparr>family = ''samsung-email'', label = ''Samsung Email'', platform = ''android''\<rparr>],
      unsupported = [\<lparr>family = ''outlook'', label = ''Outlook Windows'', platform = ''windows''\<rparr>]\<rparr>"
  by (simp add: getFeatureSupportSummary_def summary_over_def MAJOR_CLIENTS_def summary_step_def
      sample_support_levels)

text \<open>
  Claim C4. For every reference feature, the four lists of its support summary (supported,
  partial, unsupported, unknown) partition the client panel \<open>MAJOR_CLIENTS\<close>: together they
  hold exactly the clients of the panel, and no client twice.
\<close>

theorem summary_partitions_panel:
  "mset (supported (getFeatureSupportSummary f) @ partial (getFeatureSupportSummary f) @
         unsupported (getFeatureSupportSummary f) @ unknown (getFeatureSupportSummary f))
     = mset MAJOR_CLIENTS
   \<and> distinct (supported (getFeatureSupportSummary f) @ partial (getFeatureSupportSummary f) @
         unsupported (getFeatureSupportSummary f) @ unknown (getFeatureSupportSummary f))"
proof -
  let ?s = "getFeatureSupportSummary f"
  have m: "mset (buckets ?s) = mset MAJOR_CLIENTS"
    using summary_over_mset [of f MAJOR_CLIENTS]
    by (simp add: getFeatureSupportSummary_def buckets_def)
  have "distinct (buckets ?s)"
    using m distinct_MAJOR_CLIENTS by (metis mset_eq_imp_distinct_iff)
  with m show ?thesis by (simp add: buckets_def)
qed

theorem summary_partitions_panel_witness:
  "mset (supported (getFeatureSupportSummary sample_feature) @
         partial (getFeatureSupportSummary sample_feature) @
         unsupported (getFeatureSupportSummary sample_feature) @
         unknown (getFeatureSupportSummary sample_feature)) = mset MAJOR_CLIENTS
   \<and> length (supported (getFeatureSupportSummary sample_feature)) = 1
   \<and> length (partial (getFeatureSupportSummary sample_feature)) = 2
   \<and> length (unsupported (getFeatureSupportSummary sample_feature)) = 1
   \<and> length (unknown (getFeatureSupportSummary sample_feature)) = 4"
  using summary_partitions_panel [of sample_feature] by (simp add: sample_summary)

text \<open>
  Claim C6. For every feature and every client of the panel: when \<open>stats[family]\<close> is absent,
  or \<open>stats[family][platform]\<close> is absent, the resolver returns no data (\<open>null\<close>), and when
  the raw support value of the latest version does not match the support code pattern the
  resolver returns the level unknown, not an error; in all three cases the client is in the
  \<open>unknown\<close> bucket of the summary. A footnote number that \<open>notesByNum\<close> does not hold (or a
  feature without \<open>notesByNum\<close>) gives a result with no note.
\<close>

theorem missing_data_lands_in_unknown:
  assumes "c \<in> set MAJOR_CLIENTS"
  shows "(stats f (family c) = None \<longrightarrow>
            getSupportLevel f (family c) (platform c) = None
            \<and> c \<in> set (unknown (getFeatureSupportSummary f)))
       \<and> (\<forall>fs. stats f (family c) = Some fs \<and> fs (platform c) = None \<longrightarrow>
            getSupportLevel f (family c) (platform c) = None
            \<and> c \<in> set (unknown (getFeatureSupportSummary f)))
       \<and> (\<forall>fs ps. stats f (family c) = Some fs \<and> fs (platform c) = Some ps \<and> ps \<noteq> []
              \<and> matchLevel (snd (last ps)) = None \<longrightarrow>
            (fst (last ps) \<noteq> [] \<longrightarrow>
               getSupportLevel f (family c) (platform c)
                 = Some \<lparr>level = UNKNOWN, note = None, version = fst (last ps)\<rparr>)
            \<and> c \<in> set (unknown (getFeatureSupportSummary f)))
       \<and> (\<forall>fs ps l n. stats f (family c) = Some fs \<and> fs (platform c) = Some ps \<and> ps \<noteq> []
              \<and> fst (last ps) \<noteq> [] \<and> matchLevel (snd (last ps)) = Some (l, Some n)
              \<and> (case notesByNum f of None \<Rightarrow> True | Some notes \<Rightarrow> notes n = None) \<longrightarrow>
            getSupportLevel f (family c) (platform c)
              = Some \<lparr>level = l, note = None, version = fst (last ps)\<rparr>)"
proof -
  have bucket: "c \<in> set (unknown (getFeatureSupportSummary f))"
    if "case getSupportLevel f (family c) (platform c) of None \<Rightarrow> True
        | Some s \<Rightarrow> level s = UNKNOWN"
    using unknown_bucket [OF assms that] by (simp add: getFeatureSupportSummary_def)
  have 1: "stats f (family c) = None \<longrightarrow>
            getSupportLevel f (family c) (platform c) = None
            \<and> c \<in> set (unknown (getFeatureSupportSummary f))"
  proof
    assume "stats f (family c) = None"
    then have "getSupportLevel f (family c) (platform c) = None"
      by (simp add: getSupportLevel_def)
    then show "getSupportLevel f (family c) (platform c) = None
            \<and> c \<in> set (unknown (getFeatureSupportSummary f))"
      using bucket by simp
  qed
  have 2: "\<forall>fs. stats f (family c) = Some fs \<and> fs (platform c) = None \<longrightarrow>
            getSupportLevel f (family c) (platform c) = None
            \<and> c \<in> set (unknown (getFeatureSupportSummary f))"
  proof (intro allI impI)
    fix fs assume "stats f (family c) = Some fs \<and> fs (platform c) = None"
    then have "getSupportLevel f (family c) (platform c) = None"
      by (simp add: getSupportLevel_def)
    then show "getSupportLevel f (family c) (platform c) = None
            \<and> c \<in> set (unknown (getFeatureSupportSummary f))"
      using bucket by simp
  qed
  have 3: "\<forall>fs ps. stats f (family c) = Some fs \<and> fs (platform c) = Some ps \<and> ps \<noteq> []
              \<and> matchLevel (snd (last ps)) = None \<longrightarrow>
            (fst (last ps) \<noteq> [] \<longrightarrow>
               getSupportLevel f (family c) (platform c)
                 = Some \<lparr>level = UNKNOWN, note = None, version = fst (last ps)\<rparr>)
            \<and> c \<in> set (unknown (getFeatureSupportSummary f))"
  proof (intro allI impI)
    fix fs ps
    assume h: "stats f (family c) = Some fs \<and> fs (platform c) = Some ps \<and> ps \<noteq> []
              \<and> matchLevel (snd (last ps)) = None"
    then have g: "getSupportLevel f (family c) (platform c) =
        (if fst (last ps) = [] then None
         else Some \<lparr>level = UNKNOWN, note = None, version = fst (last ps)\<rparr>)"
      by (simp add: getSupportLevel_def Let_def)
    then have "c \<in> set (unknown (getFeatureSupportSummary f))"
      using bucket by (simp split: if_splits)
    with g show "(fst (last ps) \<noteq> [] \<longrightarrow>
               getSupportLevel f (family c) (platform c)
                 = Some \<lparr>level = UNKNOWN, note = None, version = fst (last ps)\<rparr>)
            \<and> c \<in> set (unknown (getFeatureSupportSummary f))"
      by simp
  qed
  have 4: "\<forall>fs ps l n. stats f (family c) = Some fs \<and> fs (platform c) = Some ps \<and> ps \<noteq> []
              \<and> fst (last ps) \<noteq> [] \<and> matchLevel (snd (last ps)) = Some (l, Some n)
              \<and> (case notesByNum f of None \<Rightarrow> True | Some notes \<Rightarrow> notes n = None) \<longrightarrow>
            getSupportLevel f (family c) (platform c)
              = Some \<lparr>level = l, note = None, version = fst (last ps)\<rparr>"
    by (auto simp: getSupportLevel_def Let_def split: option.splits)
  from 1 2 3 4 show ?thesis by blast
qed

theorem missing_data_lands_in_unknown_witness:
  "\<lparr>family = ''yahoo'', label = ''Yahoo'', platform = ''desktop-webmail''\<rparr> \<in> set MAJOR_CLIENTS
   \<and> stats sample_feature ''yahoo'' = None
   \<and> getSupportLevel sample_feature ''yahoo'' ''desktop-webmail'' = None
   \<and> \<lparr>family = ''yahoo'', label = ''Yahoo'', platform = ''desktop-webmail''\<rparr>
        \<in> set (unknown (getFeatureSupportSummary sample_feature))
   \<and> \<lparr>family = ''apple-mail'', label = ''iOS Mail'', platform = ''ios''\<rparr>
        \<in> set (unknown (getFeatureSupportSummary sample_feature))
   \<and> matchLevel ''yes'' = None
   \<and> \<lparr>family = ''apple-mail'', label = ''Apple Mail'', platform = ''macos''\<rparr>
        \<in> set (unknown (getFeatureSupportSummary sample_feature))
   \<and> matchLevel ''a #7'' = Some (PARTIAL, Some ''7'')
   \<and> getSupportLevel sample_feature ''outlook'' ''outlook-com''
        = Some \<lparr>level = PARTIAL, note = None, version = ''2019-02''\<rparr>"
  using
    missing_data_lands_in_unknown
      [of "\<lparr>family = ''yahoo'', label = ''Yahoo'', platform = ''desktop-webmail''\<rparr>" sample_feature]
    missing_data_lands_in_unknown
      [of "\<lparr>family = ''apple-mail'', label = ''iOS Mail'', platform = ''ios''\<rparr>" sample_feature]
    missing_data_lands_in_unknown
      [of "\<lparr>family = ''apple-mail'', label = ''Apple Mail'', platform = ''macos''\<rparr>" sample_feature]
    missing_data_lands_in_unknown
      [of "\<lparr>family = ''outlook'', label = ''Outlook.com'', platform = ''outlook-com''\<rparr>" sample_feature]
  by (simp add: sample_summary sample_support_levels MAJOR_CLIENTS_def sample_feature_def
      matchLevel_def level_of_char_def is_space_def is_digit_def)

subsection \<open>The classifier\<close>

lemma process_item_add_issue:
  "process_item m t fmt st x =
     (case m x of None \<Rightarrow> st | Some f \<Rightarrow> add_issue st (make_issue f t (fmt x)))"
  by (simp add: process_item_def add_issue_def make_issue_def set_add_def Let_def
      split: option.splits)

lemma processFeatures_candidates:
  "processFeatures items m t fmt st = foldl add_issue st (candidates items m t fmt)"
  unfolding processFeatures_def candidates_def
  by (induction items arbitrary: st)
     (simp_all add: process_item_add_issue List.map_filter_simps split: option.splits)

lemma create_as_fold:
  "createCompatibilityIssues ps ars els ats cm em am =
     fst (foldl add_issue ([], []) (all_candidates ps ars els ats cm em am))"
  by (simp add: createCompatibilityIssues_def Let_def processFeatures_candidates
      all_candidates_def)

lemma add_issue_fold_inv:
  "snd (foldl add_issue ([], []) cs) = map (slug \<circ> feature) (fst (foldl add_issue ([], []) cs))
   \<and> distinct (snd (foldl add_issue ([], []) cs))
   \<and> set (snd (foldl add_issue ([], []) cs)) = (slug \<circ> feature) ` set cs
   \<and> set (fst (foldl add_issue ([], []) cs)) \<subseteq> set cs"
proof (induction cs rule: rev_induct)
  case Nil
  then show ?case by simp
next
  case (snoc c cs)
  let ?st = "foldl add_issue ([], []) cs"
  from snoc have a: "snd ?st = map (slug \<circ> feature) (fst ?st)"
    and b: "distinct (snd ?st)"
    and c: "set (snd ?st) = (slug \<circ> feature) ` set cs"
    and d: "set (fst ?st) \<subseteq> set cs" by blast+
  show ?case
  proof (cases "slug (feature c) \<in> set (snd ?st)")
    case True
    then have "foldl add_issue ([], []) (cs @ [c]) = ?st" by (simp add: add_issue_def)
    with a b c d True show ?thesis by auto
  next
    case False
    then have "foldl add_issue ([], []) (cs @ [c]) = (fst ?st @ [c], snd ?st @ [slug (feature c)])"
      by (simp add: add_issue_def)
    with a b c d False show ?thesis by auto
  qed
qed

lemma add_issue_fold_mem:
  "i \<in> set (fst (foldl add_issue ([], []) cs)) \<longleftrightarrow>
     (\<exists>pre post. cs = pre @ i # post \<and> slug (feature i) \<notin> (slug \<circ> feature) ` set pre)"
proof (induction cs rule: rev_induct)
  case Nil
  then show ?case by simp
next
  case (snoc c cs)
  let ?st = "foldl add_issue ([], []) cs"
  have seen: "set (snd ?st) = (slug \<circ> feature) ` set cs"
    using add_issue_fold_inv [of cs] by blast
  show ?case
  proof (cases "slug (feature c) \<in> set (snd ?st)")
    case True
    then have eq: "fst (foldl add_issue ([], []) (cs @ [c])) = fst ?st"
      by (simp add: add_issue_def)
    show ?thesis
    proof
      assume "i \<in> set (fst (foldl add_issue ([], []) (cs @ [c])))"
      then obtain pre post where "cs = pre @ i # post"
        "slug (feature i) \<notin> (slug \<circ> feature) ` set pre"
        using snoc.IH eq by auto
      then have "cs @ [c] = pre @ i # (post @ [c])" by simp
      then show "\<exists>pre post. cs @ [c] = pre @ i # post \<and>
          slug (feature i) \<notin> (slug \<circ> feature) ` set pre"
        using \<open>slug (feature i) \<notin> (slug \<circ> feature) ` set pre\<close> by blast
    next
      assume "\<exists>pre post. cs @ [c] = pre @ i # post \<and>
          slug (feature i) \<notin> (slug \<circ> feature) ` set pre"
      then obtain pre post where p: "cs @ [c] = pre @ i # post"
        "slug (feature i) \<notin> (slug \<circ> feature) ` set pre" by blast
      show "i \<in> set (fst (foldl add_issue ([], []) (cs @ [c])))"
      proof (cases post rule: rev_cases)
        case Nil
        with p have "pre = cs" "i = c" by simp_all
        with p True seen show ?thesis by simp
      next
        case (snoc post' z)
        with p have "cs = pre @ i # post'" by simp
        with p snoc.IH eq show ?thesis by auto
      qed
    qed
  next
    case False
    then have eq: "fst (foldl add_issue ([], []) (cs @ [c])) = fst ?st @ [c]"
      by (simp add: add_issue_def)
    show ?thesis
    proof
      assume "i \<in> set (fst (foldl add_issue ([], []) (cs @ [c])))"
      then consider "i \<in> set (fst ?st)" | "i = c" using eq by auto
      then show "\<exists>pre post. cs @ [c] = pre @ i # post \<and>
          slug (feature i) \<notin> (slug \<circ> feature) ` set pre"
      proof cases
        case 1
        then obtain pre post where q: "cs = pre @ i # post"
          "slug (feature i) \<notin> (slug \<circ> feature) ` set pre"
          using snoc.IH by auto
        then have "cs @ [c] = pre @ i # (post @ [c])" by simp
        with q show ?thesis by blast
      next
        case 2
        then have "cs @ [c] = cs @ i # []" by simp
        moreover have "slug (feature i) \<notin> (slug \<circ> feature) ` set cs"
          using False seen 2 by simp
        ultimately show ?thesis by blast
      qed
    next
      assume "\<exists>pre post. cs @ [c] = pre @ i # post \<and>
          slug (feature i) \<notin> (slug \<circ> feature) ` set pre"
      then obtain pre post where p: "cs @ [c] = pre @ i # post"
        "slug (feature i) \<notin> (slug \<circ> feature) ` set pre" by blast
      show "i \<in> set (fst (foldl add_issue ([], []) (cs @ [c])))"
      proof (cases post rule: rev_cases)
        case Nil
        with p have "i = c" by simp
        with eq show ?thesis by simp
      next
        case (snoc post' z)
        with p have "cs = pre @ i # post'" by simp
        with p snoc.IH eq show ?thesis by auto
      qed
    qed
  qed
qed

lemma candidates_severity:
  "i \<in> set (candidates items m t fmt) \<Longrightarrow>
     severity i = severity_of (summary i) \<and> summary i = getFeatureSupportSummary (feature i)"
  by (auto simp: candidates_def make_issue_def map_filter_def split: option.splits)

lemma all_candidates_severity:
  assumes "i \<in> set (all_candidates ps ars els ats cm em am)"
  shows "severity i = severity_of (summary i) \<and> summary i = getFeatureSupportSummary (feature i)"
  using assms candidates_severity unfolding all_candidates_def by (auto simp del: o_apply)

lemma sample_slug: "slug sample_feature = ''css-border-radius''"
  by (simp add: sample_feature_def)

lemma sample_issues:
  "createCompatibilityIssues [''border-radius'', ''rounded'', ''color''] [] [''table''] [''radius'']
      sample_css_map Map.empty sample_attr_map
    = [make_issue sample_feature CssType ''border-radius'']"
  by (simp add: createCompatibilityIssues_def processFeatures_def process_item_def set_add_def
      sample_css_map_def sample_attr_map_def sample_slug make_issue_def Let_def)

lemma sample_candidates:
  "length (all_candidates [''border-radius'', ''rounded'', ''color''] [] [''table''] [''radius'']
             sample_css_map Map.empty sample_attr_map) = 3"
  by (simp add: all_candidates_def candidates_def List.map_filter_simps sample_css_map_def
      sample_attr_map_def)

text \<open>
  Claim C2. For every input (four identifier sets and three mappings) the issue list of the
  classifier holds at most one issue per feature slug, and the deduplication runs across the
  four categories in the order CSS properties, CSS at-rules, HTML elements, HTML attributes:
  an issue is emitted exactly when it is a candidate (an identifier that its mapping
  resolves) and no candidate processed before it has the same slug.
\<close>

theorem one_issue_per_slug:
  "distinct (map (slug \<circ> feature) (createCompatibilityIssues ps ars els ats cm em am))
   \<and> (\<forall>i. i \<in> set (createCompatibilityIssues ps ars els ats cm em am) \<longleftrightarrow>
         (\<exists>pre post. all_candidates ps ars els ats cm em am = pre @ i # post
            \<and> slug (feature i) \<notin> (slug \<circ> feature) ` set pre))"
proof -
  let ?cs = "all_candidates ps ars els ats cm em am"
  have "distinct (map (slug \<circ> feature) (fst (foldl add_issue ([], []) ?cs)))"
    using add_issue_fold_inv [of ?cs] by metis
  then show ?thesis
    using add_issue_fold_mem [of _ ?cs] by (simp only: create_as_fold) blast
qed

theorem one_issue_per_slug_witness:
  "length (all_candidates [''border-radius'', ''rounded'', ''color''] [] [''table''] [''radius'']
             sample_css_map Map.empty sample_attr_map) = 3
   \<and> map (\<lambda>i. (slug (feature i), featureType i, property i))
        (createCompatibilityIssues [''border-radius'', ''rounded'', ''color''] [] [''table'']
           [''radius''] sample_css_map Map.empty sample_attr_map)
      = [(''css-border-radius'', CssType, ''border-radius'')]
   \<and> distinct (map (slug \<circ> feature)
        (createCompatibilityIssues [''border-radius'', ''rounded'', ''color''] [] [''table'']
           [''radius''] sample_css_map Map.empty sample_attr_map))"
  using one_issue_per_slug [of "[''border-radius'', ''rounded'', ''color'']" "[]" "[''table'']"
      "[''radius'']" sample_css_map Map.empty sample_attr_map]
  by (simp add: sample_issues sample_candidates make_issue_def sample_slug)

text \<open>
  Claim C3. For every emitted issue, the severity is \<open>error\<close> if and only if the
  \<open>unsupported\<close> list of its summary is not empty; otherwise it is \<open>warning\<close> if and only if
  the \<open>partial\<close> list is not empty; otherwise it is \<open>success\<close>. The summary of an issue is the
  support summary of its feature.
\<close>

theorem severity_precedence:
  "\<forall>i \<in> set (createCompatibilityIssues ps ars els ats cm em am).
      summary i = getFeatureSupportSummary (feature i)
    \<and> (severity i = Error \<longleftrightarrow> unsupported (summary i) \<noteq> [])
    \<and> (unsupported (summary i) = [] \<longrightarrow> (severity i = Warning \<longleftrightarrow> partial (summary i) \<noteq> []))
    \<and> (unsupported (summary i) = [] \<and> partial (summary i) = [] \<longrightarrow> severity i = Success)"
proof
  fix i
  assume "i \<in> set (createCompatibilityIssues ps ars els ats cm em am)"
  then have "i \<in> set (all_candidates ps ars els ats cm em am)"
    using add_issue_fold_inv [of "all_candidates ps ars els ats cm em am"]
    by (auto simp only: create_as_fold)
  then have "severity i = severity_of (summary i)"
    and "summary i = getFeatureSupportSummary (feature i)"
    using all_candidates_severity by blast+
  then show "summary i = getFeatureSupportSummary (feature i)
    \<and> (severity i = Error \<longleftrightarrow> unsupported (summary i) \<noteq> [])
    \<and> (unsupported (summary i) = [] \<longrightarrow> (severity i = Warning \<longleftrightarrow> partial (summary i) \<noteq> []))
    \<and> (unsupported (summary i) = [] \<and> partial (summary i) = [] \<longrightarrow> severity i = Success)"
    by (simp add: severity_of_def)
qed

theorem severity_precedence_witness:
  "map severity
     (createCompatibilityIssues [''border-radius'', ''rounded'', ''color''] [] [''table'']
        [''radius''] sample_css_map Map.empty sample_attr_map) = [Error]
   \<and> map (unsupported \<circ> summary)
     (createCompatibilityIssues [''border-radius'', ''rounded'', ''color''] [] [''table'']
        [''radius''] sample_css_map Map.empty sample_attr_map)
     = [[\<lparr>family = ''outlook'', label = ''Outlook Windows'', platform = ''windows''\<rparr>]]"
  using severity_precedence [of "[''border-radius'', ''rounded'', ''color'']" "[]" "[''table'']"
      "[''radius'']" sample_css_map Map.empty sample_attr_map]
  by (simp add: sample_issues make_issue_def sample_summary severity_of_def)

section \<open>The reference index builders: properties\<close>

lemma assign_all_lookup: "assign_all f m ks k = (if k \<in> set ks then Some f else m k)"
  unfolding assign_all_def by (induction ks arbitrary: m) auto

lemma assign_new_lookup:
  "assign_new f m ks k = (case m k of Some g \<Rightarrow> Some g | None \<Rightarrow> if k \<in> set ks then Some f else None)"
  unfolding assign_new_def by (induction ks arbitrary: m) (auto split: option.splits)

lemma assign_new_filter:
  "foldl (\<lambda>m k. if P k \<and> m k = None then m(k \<mapsto> f) else m) m ks = assign_new f m (filter P ks)"
  unfolding assign_new_def by (induction ks arbitrary: m) auto

lemma register_lookup:
  "register prim kws m f k =
     (if k \<in> set (prim f) then Some f
      else case m k of Some g \<Rightarrow> Some g | None \<Rightarrow> if k \<in> set (kws f) then Some f else None)"
  by (simp add: register_def assign_new_lookup assign_all_lookup)

lemma find_append:
  "find P (xs @ ys) = (case find P xs of Some x \<Rightarrow> Some x | None \<Rightarrow> find P ys)"
  by (induction xs) auto

lemma foldl_register:
  "foldl (register prim kws) Map.empty fs k = resolve prim kws fs k"
proof (induction fs rule: rev_induct)
  case Nil
  then show ?case by (simp add: resolve_def)
next
  case (snoc f fs)
  then show ?case
    by (simp add: register_lookup resolve_def find_append split: option.splits)
qed

lemma assign_new_filter2:
  "foldl (\<lambda>m k. if P k \<and> Q k \<and> m k = None then m(k \<mapsto> f) else m) m ks
     = assign_new f m (filter (\<lambda>k. P k \<and> Q k) ks)"
  unfolding assign_new_def by (induction ks arbitrary: m) auto

lemma assign_new_Nil: "assign_new f m [] = m"
  by (simp add: assign_new_def)

lemma css_step_register:
  "css_feature_step m f = register css_primary_keys css_keyword_keys m f"
proof -
  have upd: "(if t \<noteq> p then (m(p \<mapsto> f))(t \<mapsto> f) else m(p \<mapsto> f)) = (m(p \<mapsto> f))(t \<mapsto> f)"
    for t p :: string by auto
  show ?thesis
    by (simp add: css_feature_step_def register_def css_primary_keys_def css_keyword_keys_def
        keyword_list_def Let_def upd assign_new_filter assign_all_def assign_new_Nil
        split: option.splits)
qed

lemma element_step_register:
  "html_element_step m f = register element_primary_keys html_keyword_keys m f"
  by (simp add: html_element_step_def register_def element_primary_keys_def html_keyword_keys_def
        keyword_list_def Let_def assign_new_filter2 assign_all_def assign_new_Nil
        split: option.splits)

lemma attribute_step_register:
  "html_attribute_step m f = register attribute_primary_keys html_keyword_keys m f"
  by (simp add: html_attribute_step_def register_def attribute_primary_keys_def html_keyword_keys_def
        keyword_list_def Let_def assign_new_filter2 assign_all_def assign_new_Nil
        split: option.splits)

lemma builders_resolve:
  "buildCssPropertyMap fs k = resolve css_primary_keys css_keyword_keys fs k"
  "buildHtmlElementMap fs k = resolve element_primary_keys html_keyword_keys fs k"
  "buildHtmlAttributeMap fs k = resolve attribute_primary_keys html_keyword_keys fs k"
proof -
  have 1: "css_feature_step = register css_primary_keys css_keyword_keys"
    by (intro ext) (simp add: css_step_register)
  have 2: "html_element_step = register element_primary_keys html_keyword_keys"
    by (intro ext) (simp add: element_step_register)
  have 3: "html_attribute_step = register attribute_primary_keys html_keyword_keys"
    by (intro ext) (simp add: attribute_step_register)
  show "buildCssPropertyMap fs k = resolve css_primary_keys css_keyword_keys fs k"
    by (simp add: buildCssPropertyMap_def 1 foldl_register)
  show "buildHtmlElementMap fs k = resolve element_primary_keys html_keyword_keys fs k"
    by (simp add: buildHtmlElementMap_def 2 foldl_register)
  show "buildHtmlAttributeMap fs k = resolve attribute_primary_keys html_keyword_keys fs k"
    by (simp add: buildHtmlAttributeMap_def 3 foldl_register)
qed

lemma sample_index_lookups:
  "map (\<lambda>k. map_option slug (buildCssPropertyMap [dup_a, dup_b] k)) [''shared'', ''b'', ''x'', ''a'']
     = [Some ''css-b'', Some ''css-b'', Some ''css-a'', Some ''css-a'']"
  "map (\<lambda>k. map_option slug (buildHtmlElementMap [elem_a, elem_b] k))
       [''video'', ''audio'', ''media'']
     = [Some ''html-video'', Some ''html-audio'', Some ''html-video'']"
  "map (\<lambda>k. map_option slug (buildHtmlAttributeMap [attr_a, attr_b] k))
       [''align'', ''valign'', ''alignment'']
     = [Some ''html-align-attribute'', Some ''html-valign-attribute'',
        Some ''html-align-attribute'']"
  by code_simp+

text \<open>
  Claim C1 says that each builder maps an identifier claimed by several features to the
  first feature of the dataset that claims it, whether the key comes from a slug, a title
  or a keyword. The builders register the keys of the slug and the title with an
  unguarded \<open>map.set\<close>; only the keyword loop tests \<open>map.has\<close>. So the claim fails:
  \<open>dup_a\<close> comes first and claims \<open>shared\<close> by its title, yet the CSS index maps \<open>shared\<close> to
  \<open>dup_b\<close>; \<open>elem_a\<close> and \<open>attr_a\<close> come first and claim \<open>audio\<close> and \<open>valign\<close> as keywords, yet
  the element and attribute indexes map them to the later features whose slug and title
  give these keys.
\<close>

theorem first_claim_wins_counterexample:
  "''shared'' \<in> set (css_primary_keys dup_a)
   \<and> map_option slug (buildCssPropertyMap [dup_a, dup_b] ''shared'') = Some ''css-b''
   \<and> ''audio'' \<in> set (html_keyword_keys elem_a)
   \<and> map_option slug (buildHtmlElementMap [elem_a, elem_b] ''audio'') = Some ''html-audio''
   \<and> ''valign'' \<in> set (html_keyword_keys attr_a)
   \<and> map_option slug (buildHtmlAttributeMap [attr_a, attr_b] ''valign'')
       = Some ''html-valign-attribute''"
  by code_simp

text \<open>
  Claim C1, amended. For every dataset and every identifier, each of the three builders
  maps the identifier to the last feature in dataset order that registers it from its slug
  or its title (these registrations replace an earlier entry), and, when no feature does,
  to the first feature in dataset order that lists it as a keyword (a keyword registration
  of a key that is already present is a no-op).
\<close>

theorem index_builders_resolution:
  "buildCssPropertyMap fs k = resolve css_primary_keys css_keyword_keys fs k
   \<and> buildHtmlElementMap fs k = resolve element_primary_keys html_keyword_keys fs k
   \<and> buildHtmlAttributeMap fs k = resolve attribute_primary_keys html_keyword_keys fs k"
  by (simp add: builders_resolve)

theorem index_builders_resolution_witness:
  "buildCssPropertyMap [dup_a, dup_b] ''x''
     = resolve css_primary_keys css_keyword_keys [dup_a, dup_b] ''x''
   \<and> map_option slug (buildCssPropertyMap [dup_a, dup_b] ''x'') = Some ''css-a''
   \<and> map_option slug (buildCssPropertyMap [dup_a, dup_b] ''b'') = Some ''css-b''
   \<and> buildHtmlElementMap [elem_a, elem_b] ''media''
     = resolve element_primary_keys html_keyword_keys [elem_a, elem_b] ''media''
   \<and> map_option slug (buildHtmlElementMap [elem_a, elem_b] ''media'') = Some ''html-video''
   \<and> buildHtmlAttributeMap [attr_a, attr_b] ''alignment''
     = resolve attribute_primary_keys html_keyword_keys [attr_a, attr_b] ''alignment''
   \<and> map_option slug (buildHtmlAttributeMap [attr_a, attr_b] ''alignment'')
       = Some ''html-align-attribute''"
  using index_builders_resolution [of "[dup_a, dup_b]" "''x''"]
    index_builders_resolution [of "[elem_a, elem_b]" "''media''"]
    index_builders_resolution [of "[attr_a, attr_b]" "''alignment''"]
    sample_index_lookups
  by simp

section \<open>The markup feature extractor: properties\<close>

subsection \<open>Declarations\<close>

lemma set_set_add [simp]: "set (set_add x xs) = insert x (set xs)"
  by (auto simp: set_add_def)

lemma distinct_set_add [simp]: "distinct (set_add x xs) = distinct xs"
  by (auto simp: set_add_def)

lemma value_features_fold:
  "set (foldl (\<lambda>props (feat, pattern). if regex_test pattern v then set_add feat props else props)
         ps fs)
     = set ps \<union> {feat. \<exists>pat. (feat, pat) \<in> set fs \<and> regex_test pat v}"
  by (induction fs arbitrary: ps) (auto split: prod.splits)

lemma set_extractValueFeatures:
  "set (extractValueFeatures v ps)
     = set ps \<union> {feat. \<exists>pat. (feat, pat) \<in> set cssFeatures \<and> regex_test pat v}"
  by (simp add: extractValueFeatures_def value_features_fold)

lemma feature_names_no_dash:
  "(feat, pat) \<in> set cssFeatures \<Longrightarrow> \<not> starts_with feat ''-''"
  by (auto simp: cssFeatures_def starts_with_def)

lemma strip_vendor_prefix_drop:
  assumes "pre \<in> set vendor_prefixes" "starts_with prop pre"
  shows "strip_vendor_prefix prop = drop (length pre) prop"
proof -
  from assms(2) obtain t where t: "prop = pre @ t" by (auto simp: starts_with_iff)
  from assms(1) consider "pre = ''-webkit-''" | "pre = ''-moz-''" | "pre = ''-ms-''" | "pre = ''-o-''"
    by (auto simp: vendor_prefixes_def)
  then show ?thesis
    by cases (simp_all add: t strip_vendor_prefix_def starts_with_def)
qed

lemma strip_vendor_prefix_other:
  assumes "\<forall>pre \<in> set vendor_prefixes. \<not> starts_with prop pre"
  shows "strip_vendor_prefix prop = prop"
  using assms by (simp add: vendor_prefixes_def strip_vendor_prefix_def)

lemma decl_step_props:
  "set (fst (decl_step st (Decl p v)))
     = set (fst st)
       \<union> {if starts_with (toLowerCase p) ''-'' then strip_vendor_prefix (toLowerCase p)
           else toLowerCase p}
       \<union> {feat. \<exists>pat. (feat, pat) \<in> set cssFeatures \<and> regex_test pat (toLowerCase v)}"
  by (auto simp: decl_step_def Let_def set_extractValueFeatures)

lemma decl_step_value:
  "has_value (snd (decl_step st (Decl p v))) (toLowerCase p) (toLowerCase v)"
  by (simp add: decl_step_def Let_def has_value_def)

lemma decl_step_mono:
  "set (fst st) \<subseteq> set (fst (decl_step st node))"
  "has_value (snd st) k x \<Longrightarrow> has_value (snd (decl_step st node)) k x"
  by (cases node; auto simp: decl_step_def Let_def set_extractValueFeatures has_value_def
        split: option.splits)+

lemma foldl_decl_step_mono:
  "set (fst st) \<subseteq> set (fst (foldl decl_step st nodes))"
  "has_value (snd st) k x \<Longrightarrow> has_value (snd (foldl decl_step st nodes)) k x"
proof (induction nodes arbitrary: st)
  case Nil
  { case 1 show ?case by simp }
  { case 2 then show ?case by simp }
next
  case (Cons n nodes)
  { case 1 show ?case using Cons.IH(1) [of "decl_step st n"] decl_step_mono(1) [of st n] by auto }
  { case 2 then show ?case using Cons.IH(2) [of "decl_step st n"] decl_step_mono(2) by simp }
qed

lemma foldl_decl_step_member:
  assumes "Decl p v \<in> set nodes"
  shows "(if starts_with (toLowerCase p) ''-'' then strip_vendor_prefix (toLowerCase p)
          else toLowerCase p) \<in> set (fst (foldl decl_step st nodes))"
    and "has_value (snd (foldl decl_step st nodes)) (toLowerCase p) (toLowerCase v)"
  using assms
proof (induction nodes arbitrary: st)
  case Nil
  { case 1 then show ?case by simp }
  { case 2 then show ?case by simp }
next
  case (Cons n nodes)
  { case 1
    show ?case
    proof (cases "n = Decl p v")
      case True
      have "(if starts_with (toLowerCase p) ''-'' then strip_vendor_prefix (toLowerCase p)
          else toLowerCase p) \<in> set (fst (decl_step st n))"
        unfolding True decl_step_props by simp
      then show ?thesis using foldl_decl_step_mono(1) [of "decl_step st n" nodes] by auto
    next
      case False
      with 1 have "Decl p v \<in> set nodes" by simp
      from Cons.IH(1) [OF this] show ?thesis by simp
    qed }
  { case 2
    show ?case
    proof (cases "n = Decl p v")
      case True
      have "has_value (snd (decl_step st n)) (toLowerCase p) (toLowerCase v)"
        unfolding True by (rule decl_step_value)
      then show ?thesis using foldl_decl_step_mono(2) by simp
    next
      case False
      with 2 have "Decl p v \<in> set nodes" by simp
      from Cons.IH(2) [OF this] show ?thesis by simp
    qed }
qed

lemma starts_with_shorter:
  assumes "starts_with s pre" "pre \<noteq> []"
  shows "drop (length pre) s \<noteq> s"
proof -
  from assms(1) obtain t where "s = pre @ t" by (auto simp: starts_with_iff)
  with assms(2) show ?thesis
    by (metis append_eq_conv_conj append_self_conv2 drop_all length_drop less_or_eq_imp_le
        list.size(3) length_append add_diff_cancel_left' length_0_conv)
qed

lemma sample_lower:
  "toLowerCase ''-WebKit-Border-Radius'' = ''-webkit-border-radius''"
  "toLowerCase ''-webkit-border-radius'' = ''-webkit-border-radius''"
  "toLowerCase ''4PX'' = ''4px''"
  "toLowerCase ''4px'' = ''4px''"
  "toLowerCase ''--x'' = ''--x''"
  "toLowerCase ''-epub-foo'' = ''-epub-foo''"
  by (simp_all add: lower_eval)

lemma regex_test_short:
  "length v < length lit \<Longrightarrow> \<not> regex_test (match_literal lit) v"
  "length v \<le> length lit \<Longrightarrow> \<not> regex_test (match_call lit) v"
proof -
  have a: "split_where (match_literal lit) v = None" if "length v < length lit" for v
    using that
    by (induction v) (auto simp: match_literal_def starts_with_ci_def toLowerCase_def)
  have b: "split_where (match_call lit) v = None" if "length v \<le> length lit" for v
    using that
    by (induction v) (auto simp: match_call_def starts_with_ci_def starts_with_def toLowerCase_def)
  show "length v < length lit \<Longrightarrow> \<not> regex_test (match_literal lit) v"
    by (simp add: regex_test_def a)
  show "length v \<le> length lit \<Longrightarrow> \<not> regex_test (match_call lit) v"
    by (simp add: regex_test_def b)
qed

lemma no_value_features_short: "length v \<le> 3 \<Longrightarrow> extractValueFeatures v ps = ps"
  by (simp add: extractValueFeatures_def cssFeatures_def regex_test_short)

text \<open>
  Claim C5 says that the value of a vendor-prefixed declaration is recorded in the value
  set of the unprefixed property. The code records it under \<open>prop\<close>, the lower-cased name
  with its prefix: for the declaration \<open>-webkit-border-radius: 4px\<close> the property set gets
  \<open>border-radius\<close>, and \<open>values\<close> gets the key \<open>-webkit-border-radius\<close> and no key
  \<open>border-radius\<close>.
\<close>

theorem vendor_value_key_counterexample:
  "fst (extractPropertiesFromAst [Rule ''*'' [Decl ''-webkit-border-radius'' ''4px'']]
          ([], Map.empty)) = [''border-radius'']
   \<and> snd (extractPropertiesFromAst [Rule ''*'' [Decl ''-webkit-border-radius'' ''4px'']]
          ([], Map.empty)) ''border-radius'' = None
   \<and> snd (extractPropertiesFromAst [Rule ''*'' [Decl ''-webkit-border-radius'' ''4px'']]
          ([], Map.empty)) ''-webkit-border-radius'' = Some [''4px'']"
  by (simp add: extractPropertiesFromAst_def walk_def decl_step_def Let_def sample_lower
      starts_with_def strip_vendor_prefix_def set_add_def no_value_features_short)

text \<open>
  Claim C5, amended. For every declaration of a parsed tree whose lower-cased property
  name begins with one of the vendor prefixes \<open>-webkit-\<close>, \<open>-moz-\<close>, \<open>-ms-\<close>, \<open>-o-\<close>, the
  extraction records the unprefixed name in the property set, and records the lower-cased
  value of the declaration in the value set of the lower-cased name as written, with its
  prefix. Processing the declaration does not add the prefixed name to the property set:
  it adds the unprefixed name and the names of the value features that the value shows,
  and nothing else.
\<close>

theorem vendor_prefix_normalised:
  assumes "Decl p v \<in> set (walk root)"
    and "pre \<in> set vendor_prefixes"
    and "starts_with (toLowerCase p) pre"
  shows "drop (length pre) (toLowerCase p) \<in> set (fst (extractPropertiesFromAst root st))
       \<and> has_value (snd (extractPropertiesFromAst root st)) (toLowerCase p) (toLowerCase v)
       \<and> set (fst (decl_step st' (Decl p v)))
           = set (fst st') \<union> {drop (length pre) (toLowerCase p)}
             \<union> {feat. \<exists>pat. (feat, pat) \<in> set cssFeatures \<and> regex_test pat (toLowerCase v)}
       \<and> (toLowerCase p \<in> set (fst (decl_step st' (Decl p v))) \<longleftrightarrow> toLowerCase p \<in> set (fst st'))"
proof -
  have pre: "pre \<noteq> []" "starts_with pre ''-''"
    using assms(2) by (auto simp: vendor_prefixes_def starts_with_def)
  from assms(3) obtain t where t: "toLowerCase p = pre @ t" by (auto simp: starts_with_iff)
  from pre(2) obtain u where "pre = ''-'' @ u" by (auto simp: starts_with_iff)
  with t have dash: "starts_with (toLowerCase p) ''-''" by (auto simp: starts_with_iff)
  have strip: "strip_vendor_prefix (toLowerCase p) = drop (length pre) (toLowerCase p)"
    using strip_vendor_prefix_drop [OF assms(2,3)] .
  have 1: "drop (length pre) (toLowerCase p) \<in> set (fst (extractPropertiesFromAst root st))"
    using foldl_decl_step_member(1) [OF assms(1), of st] dash strip
    by (simp add: extractPropertiesFromAst_def)
  have 2: "has_value (snd (extractPropertiesFromAst root st)) (toLowerCase p) (toLowerCase v)"
    using foldl_decl_step_member(2) [OF assms(1), of st]
    by (simp add: extractPropertiesFromAst_def)
  have 3: "set (fst (decl_step st' (Decl p v)))
           = set (fst st') \<union> {drop (length pre) (toLowerCase p)}
             \<union> {feat. \<exists>pat. (feat, pat) \<in> set cssFeatures \<and> regex_test pat (toLowerCase v)}"
    using dash strip by (simp add: decl_step_props)
  have ne: "toLowerCase p \<noteq> drop (length pre) (toLowerCase p)"
    using starts_with_shorter [OF assms(3) pre(1)] by simp
  have nf: "\<not> (\<exists>pat. (toLowerCase p, pat) \<in> set cssFeatures)"
    using feature_names_no_dash dash by blast
  have 4: "toLowerCase p \<in> set (fst (decl_step st' (Decl p v))) \<longleftrightarrow> toLowerCase p \<in> set (fst st')"
    unfolding 3 using ne nf by auto
  from 1 2 3 4 show ?thesis by blast
qed

text \<open>
  Claim C10. For every declaration of a parsed tree whose lower-cased property name begins
  with \<open>-\<close> but with none of the four vendor prefixes (a custom property such as \<open>--x\<close>, an
  unlisted prefix such as \<open>-epub-foo\<close>), the replacement of the prefix leaves the name as it
  is, and the extraction records the lower-cased name, leading dashes included, in the
  property set.
\<close>

theorem other_dash_names_kept:
  assumes "Decl p v \<in> set (walk root)"
    and "starts_with (toLowerCase p) ''-''"
    and "\<forall>pre \<in> set vendor_prefixes. \<not> starts_with (toLowerCase p) pre"
  shows "strip_vendor_prefix (toLowerCase p) = toLowerCase p
       \<and> toLowerCase p \<in> set (fst (extractPropertiesFromAst root st))"
  using foldl_decl_step_member(1) [OF assms(1), of st] assms(2)
    strip_vendor_prefix_other [OF assms(3)]
  by (simp add: extractPropertiesFromAst_def)


theorem vendor_prefix_normalised_witness:
  "Decl ''-WebKit-Border-Radius'' ''4PX'' \<in> set (walk [Rule ''*'' [Decl ''-WebKit-Border-Radius'' ''4PX'']])
   \<and> ''-webkit-'' \<in> set vendor_prefixes
   \<and> starts_with (toLowerCase ''-WebKit-Border-Radius'') ''-webkit-''
   \<and> ''border-radius'' \<in> set (fst (extractPropertiesFromAst
          [Rule ''*'' [Decl ''-WebKit-Border-Radius'' ''4PX'']] ([], Map.empty)))
   \<and> has_value (snd (extractPropertiesFromAst
          [Rule ''*'' [Decl ''-WebKit-Border-Radius'' ''4PX'']] ([], Map.empty)))
        ''-webkit-border-radius'' ''4px''
   \<and> ''-webkit-border-radius'' \<notin> set (fst (decl_step ([], Map.empty)
          (Decl ''-WebKit-Border-Radius'' ''4PX'')))"
proof -
  have w: "Decl ''-WebKit-Border-Radius'' ''4PX''
             \<in> set (walk [Rule ''*'' [Decl ''-WebKit-Border-Radius'' ''4PX'']])"
    by (simp add: walk_def)
  have v: "''-webkit-'' \<in> set vendor_prefixes" by (simp add: vendor_prefixes_def)
  have s: "starts_with (toLowerCase ''-WebKit-Border-Radius'') ''-webkit-''"
    by (simp add: sample_lower starts_with_def)
  have d: "drop (length ''-webkit-'') (toLowerCase ''-WebKit-Border-Radius'') = ''border-radius''"
    by (simp add: sample_lower)
  have e: "''-webkit-border-radius'' \<notin> set (fst (([] :: string list, Map.empty :: value_map)))"
    by simp
  note t = vendor_prefix_normalised [OF w v s, of "([], Map.empty)" "([], Map.empty)"]
  from t have 1: "''border-radius'' \<in> set (fst (extractPropertiesFromAst
          [Rule ''*'' [Decl ''-WebKit-Border-Radius'' ''4PX'']] ([], Map.empty)))"
    unfolding d by (rule conjunct1)
  from t have 2: "has_value (snd (extractPropertiesFromAst
          [Rule ''*'' [Decl ''-WebKit-Border-Radius'' ''4PX'']] ([], Map.empty)))
        ''-webkit-border-radius'' ''4px''"
    unfolding sample_lower by (rule conjunct1 [OF conjunct2])
  from t have 4: "''-webkit-border-radius'' \<in> set (fst (decl_step ([], Map.empty)
          (Decl ''-WebKit-Border-Radius'' ''4PX'')))
      \<longleftrightarrow> ''-webkit-border-radius'' \<in> set (fst (([] :: string list, Map.empty :: value_map)))"
    unfolding sample_lower by (rule conjunct2 [OF conjunct2 [OF conjunct2]])
  from 4 e have 3: "''-webkit-border-radius'' \<notin> set (fst (decl_step ([], Map.empty)
          (Decl ''-WebKit-Border-Radius'' ''4PX'')))"
    by blast
  from w v s 1 2 3 show ?thesis by (intro conjI)
qed

theorem other_dash_names_kept_witness:
  "Decl ''--x'' ''1'' \<in> set (walk [Rule ''a'' [Decl ''--x'' ''1'', Decl ''-epub-foo'' ''2'']])
   \<and> starts_with (toLowerCase ''--x'') ''-''
   \<and> list_all (\<lambda>pre. \<not> starts_with (toLowerCase ''--x'') pre) vendor_prefixes
   \<and> ''--x'' \<in> set (fst (extractPropertiesFromAst
         [Rule ''a'' [Decl ''--x'' ''1'', Decl ''-epub-foo'' ''2'']] ([], Map.empty)))
   \<and> ''-epub-foo'' \<in> set (fst (extractPropertiesFromAst
         [Rule ''a'' [Decl ''--x'' ''1'', Decl ''-epub-foo'' ''2'']] ([], Map.empty)))"
proof -
  have w: "Decl ''--x'' ''1'' \<in> set (walk [Rule ''a'' [Decl ''--x'' ''1'', Decl ''-epub-foo'' ''2'']])"
    "Decl ''-epub-foo'' ''2'' \<in> set (walk [Rule ''a'' [Decl ''--x'' ''1'', Decl ''-epub-foo'' ''2'']])"
    by (simp_all add: walk_def)
  have d: "starts_with (toLowerCase ''--x'') ''-''" "starts_with (toLowerCase ''-epub-foo'') ''-''"
    by (simp_all add: sample_lower starts_with_def)
  have n: "\<forall>pre \<in> set vendor_prefixes. \<not> starts_with (toLowerCase ''--x'') pre"
    "\<forall>pre \<in> set vendor_prefixes. \<not> starts_with (toLowerCase ''-epub-foo'') pre"
    by (simp_all add: sample_lower vendor_prefixes_def starts_with_def)
  have n': "list_all (\<lambda>pre. \<not> starts_with (toLowerCase ''--x'') pre) vendor_prefixes"
    using n(1) by (simp add: list_all_iff)
  have 1: "''--x'' \<in> set (fst (extractPropertiesFromAst
         [Rule ''a'' [Decl ''--x'' ''1'', Decl ''-epub-foo'' ''2'']] ([], Map.empty)))"
    using other_dash_names_kept [OF w(1) d(1) n(1), of "([], Map.empty)"]
    unfolding sample_lower by (rule conjunct2)
  have 2: "''-epub-foo'' \<in> set (fst (extractPropertiesFromAst
         [Rule ''a'' [Decl ''--x'' ''1'', Decl ''-epub-foo'' ''2'']] ([], Map.empty)))"
    using other_dash_names_kept [OF w(2) d(2) n(2), of "([], Map.empty)"]
    unfolding sample_lower by (rule conjunct2)
  from w(1) d(1) n' 1 2 show ?thesis by (intro conjI)
qed

subsection \<open>Scanning with a global regular expression\<close>

lemma run_split:
  assumes "list_all P A" "r = [] \<or> \<not> P (hd r)"
  shows "takeWhile P (A @ r) = A" "dropWhile P (A @ r) = r"
proof -
  have a: "\<forall>x \<in> set A. P x" using assms(1) by (simp add: list_all_iff)
  have b: "takeWhile P r = []" "dropWhile P r = r"
    using assms(2) by (cases r; simp)+
  show "takeWhile P (A @ r) = A" using a b by (simp add: takeWhile_append2)
  show "dropWhile P (A @ r) = r" using a b by (simp add: dropWhile_append2)
qed

lemma run_parts:
  "list_all P (takeWhile P s)"
  "dropWhile P s = [] \<or> \<not> P (hd (dropWhile P s))"
  "s = takeWhile P s @ dropWhile P s"
proof -
  show "list_all P (takeWhile P s)" by (simp add: list_all_iff) (meson set_takeWhileD)
  show "dropWhile P s = [] \<or> \<not> P (hd (dropWhile P s))" using hd_dropWhile by blast
  show "s = takeWhile P s @ dropWhile P s" by simp
qed

text \<open>
  Completeness of the loop over a global regular expression: a match at a position is
  reported when no match that starts before the position reaches beyond it.
\<close>

lemma exec_all_finds:
  assumes len: "\<And>s cap n. m s = Some (cap, n) \<Longrightarrow> 0 < n \<and> n \<le> length s"
    and hit: "m rest = Some (cap, n)"
    and free: "\<And>p1 p2 cap' n'. pre = p1 @ p2 \<Longrightarrow> p2 \<noteq> [] \<Longrightarrow>
                 m (p2 @ rest) = Some (cap', n') \<Longrightarrow> n' \<le> length p2"
  shows "cap \<in> set (exec_all m (pre @ rest))"
  using free
proof (induction pre rule: length_induct)
  case (1 pre)
  show ?case
  proof (cases pre)
    case Nil
    from len [OF hit] obtain c cs where "rest = c # cs" by (cases rest) auto
    with hit Nil show ?thesis by simp
  next
    case (Cons c p')
    show ?thesis
    proof (cases "m (pre @ rest)")
      case None
      have "cap \<in> set (exec_all m (p' @ rest))"
      proof (rule 1(1) [rule_format])
        show "length p' < length pre" using Cons by simp
      next
        fix p1 p2 cap' n'
        assume "p' = p1 @ p2" "p2 \<noteq> []" "m (p2 @ rest) = Some (cap', n')"
        then show "n' \<le> length p2" using 1(2) [of "c # p1" p2] Cons by simp
      qed
      with None Cons show ?thesis by simp
    next
      case (Some a)
      obtain cap' n' where a: "a = (cap', n')" by (cases a)
      with Some have s: "m (pre @ rest) = Some (cap', n')" by simp
      from len [OF s] have pos: "0 < n'" by simp
      have le: "n' \<le> length pre" using 1(2) [of "[]" pre cap' n'] s Cons by simp
      have d: "drop (n' - 1) (p' @ rest) = drop (n' - 1) p' @ rest"
        using le Cons by simp
      have "cap \<in> set (exec_all m (drop (n' - 1) p' @ rest))"
      proof (rule 1(1) [rule_format])
        show "length (drop (n' - 1) p') < length pre" using Cons by simp
      next
        fix p1 p2 cap'' n''
        assume h: "drop (n' - 1) p' = p1 @ p2" "p2 \<noteq> []" "m (p2 @ rest) = Some (cap'', n'')"
        have "pre = (c # take (n' - 1) p' @ p1) @ p2"
          using h(1) Cons by (metis append_Cons append_assoc append_take_drop_id)
        then show "n'' \<le> length p2" using 1(2) h(2,3) by blast
      qed
      with s Cons d show ?thesis by simp
    qed
  qed
qed

lemma name_char_not_space: "is_name_char c \<Longrightarrow> \<not> is_space c"
  by (auto simp: is_name_char_def is_alpha_def is_lower_def is_upper_def lower_chars_def
      upper_chars_def is_space_def)

lemma name_char_not_special:
  "is_name_char c \<Longrightarrow> c \<notin> set ''(:,)@''"
  by (auto simp: is_name_char_def is_alpha_def is_lower_def is_upper_def lower_chars_def
      upper_chars_def)

lemma space_not_special: "is_space c \<Longrightarrow> c \<notin> set ''(:,)@''"
  by (auto simp: is_space_def)

lemma not_in_run: "list_all P A \<Longrightarrow> \<not> P x \<Longrightarrow> x \<notin> set A"
  by (auto simp: list_all_iff)

lemma special_chars:
  "\<not> is_space (CHR ''('')" "\<not> is_name_char (CHR ''('')"
  "\<not> is_space (CHR ''@'')" "\<not> is_name_char (CHR ''@'')"
  "\<not> is_space (CHR '':'')" "\<not> is_name_char (CHR '':'')"
  using space_not_special name_char_not_special by auto

lemma inner_char:
  assumes "s = c # M @ r" "0 < k" "k \<le> length M"
  shows "s ! k \<in> set M"
proof -
  from assms obtain k' where k: "k = Suc k'" "k' < length M" by (cases k) auto
  then show ?thesis using assms(1) by (simp add: nth_append)
qed

lemma no_overlap_by_head:
  assumes "p2 @ rest = c # M @ r" "p2 \<noteq> []" "rest \<noteq> []" "hd rest \<notin> set M"
  shows "Suc (length M) \<le> length p2"
proof (rule ccontr)
  assume "\<not> Suc (length M) \<le> length p2"
  then have k: "0 < length p2" "length p2 \<le> length M" using assms(2) by auto
  have "(p2 @ rest) ! length p2 = hd rest"
    using assms(3) by (simp add: nth_append hd_conv_nth)
  moreover have "(p2 @ rest) ! length p2 \<in> set M"
    using inner_char [OF assms(1) k] .
  ultimately show False using assms(4) by simp
qed

lemma media_match_intro:
  assumes "list_all is_space A" "f \<noteq> []" "list_all is_name_char f" "list_all is_space C"
    and "t \<in> set '':,)''"
  shows "match_media_feature (''('' @ A @ f @ C @ t # r)
           = Some (f, length A + length f + length C + 2)"
proof -
  have hf: "\<not> is_space (hd (f @ C @ t # r))"
    using assms(2,3) name_char_not_space by (cases f) auto
  have t1: "\<not> is_space t" "\<not> is_name_char t"
    using assms(5) space_not_special name_char_not_special by auto
  have hc: "\<not> is_name_char (hd (C @ t # r))"
    using assms(4) t1 name_char_not_space by (cases C) auto
  have r1: "dropWhile is_space (A @ f @ C @ t # r) = f @ C @ t # r"
    using run_split(2) [OF assms(1), of "f @ C @ t # r"] hf by simp
  have nm: "takeWhile is_name_char (f @ C @ t # r) = f"
    "dropWhile is_name_char (f @ C @ t # r) = C @ t # r"
    using run_split [OF assms(3), of "C @ t # r"] hc by simp_all
  have r2: "dropWhile is_space (C @ t # r) = t # r"
    using run_split(2) [OF assms(4), of "t # r"] t1 by simp
  show ?thesis
    using assms(2,5) by (auto simp: match_media_feature_def Let_def r1 nm r2 starts_with_def)
qed

lemma media_match_elim:
  assumes "match_media_feature s = Some (f, n)"
  shows "\<exists>A C t r. s = ''('' @ A @ f @ C @ t # r \<and> list_all is_space A \<and> f \<noteq> []
           \<and> list_all is_name_char f \<and> list_all is_space C \<and> t \<in> set '':,)''
           \<and> n = length A + length f + length C + 2"
proof -
  from assms obtain c r0 where s: "s = c # r0" by (cases s) (auto simp: match_media_feature_def)
  define A where "A = takeWhile is_space r0"
  define r1 where "r1 = dropWhile is_space r0"
  define C where "C = takeWhile is_space (dropWhile is_name_char r1)"
  define r2 where "r2 = dropWhile is_space (dropWhile is_name_char r1)"
  from assms s have c: "c = CHR ''(''" and f: "f = takeWhile is_name_char r1" "f \<noteq> []"
    and st: "starts_with r2 '':'' \<or> starts_with r2 '','' \<or> starts_with r2 '')''"
    and n: "n = length s - length (tl r2)"
    by (auto simp: match_media_feature_def Let_def r1_def r2_def split: if_splits)
  from st obtain t r where r2: "r2 = t # r" "t \<in> set '':,)''"
    by (auto simp: starts_with_iff)
  have d: "r0 = A @ r1" "r1 = f @ dropWhile is_name_char r1"
    "dropWhile is_name_char r1 = C @ r2"
    by (simp_all add: A_def r1_def f C_def r2_def)
  then have whole: "s = ''('' @ A @ f @ C @ t # r" using s c r2 by simp
  have "n = length A + length f + length C + 2"
    unfolding n using r2 by (subst whole) simp
  moreover have "list_all is_space A" "list_all is_name_char f" "list_all is_space C"
    unfolding A_def f C_def by (rule run_parts(1))+
  ultimately show ?thesis using whole f(2) r2(2) by blast
qed

lemma media_match_len:
  "match_media_feature s = Some (cap, n) \<Longrightarrow> 0 < n \<and> n \<le> length s"
  by (drule media_match_elim) auto

lemma media_exec_finds:
  assumes "match_media_feature rest = Some (f, n)"
  shows "f \<in> set (exec_all match_media_feature (pre @ rest))"
proof (rule exec_all_finds [where n = n])
  show "\<And>s cap n. match_media_feature s = Some (cap, n) \<Longrightarrow> 0 < n \<and> n \<le> length s"
    by (rule media_match_len)
  show "match_media_feature rest = Some (f, n)" by (rule assms)
next
  fix p1 p2 cap' n'
  assume h: "pre = p1 @ p2" "p2 \<noteq> []" "match_media_feature (p2 @ rest) = Some (cap', n')"
  from media_match_elim [OF h(3)] obtain A C t r where
    sh: "p2 @ rest = ''('' @ A @ cap' @ C @ t # r" "list_all is_space A"
      "list_all is_name_char cap'" "list_all is_space C" "t \<in> set '':,)''"
      "n' = length A + length cap' + length C + 2" by blast
  from media_match_elim [OF assms] obtain A0 C0 t0 r0 where
    "rest = ''('' @ A0 @ f @ C0 @ t0 # r0" by blast
  then have hd: "rest \<noteq> []" "hd rest = CHR ''(''" by simp_all
  have "CHR ''('' \<notin> set A" by (rule not_in_run [OF sh(2) special_chars(1)])
  moreover have "CHR ''('' \<notin> set cap'" by (rule not_in_run [OF sh(3) special_chars(2)])
  moreover have "CHR ''('' \<notin> set C" by (rule not_in_run [OF sh(4) special_chars(1)])
  moreover have "CHR ''('' \<noteq> t" using sh(5) by auto
  ultimately have notin: "hd rest \<notin> set (A @ cap' @ C @ [t])"
    using hd(2) by simp
  have "p2 @ rest = CHR ''('' # (A @ cap' @ C @ [t]) @ r" using sh(1) by simp
  from no_overlap_by_head [OF this h(2) hd(1) notin] show "n' \<le> length p2"
    using sh(6) by simp
qed

lemma set_foldl_set_add:
  "set (foldl (\<lambda>acc x. set_add (g x) acc) acc xs) = set acc \<union> g ` set xs"
  by (induction xs arbitrary: acc) auto

lemma distinct_foldl_set_add:
  "distinct acc \<Longrightarrow> distinct (foldl (\<lambda>acc x. set_add (g x) acc) acc xs)"
  by (induction xs arbitrary: acc) auto

lemma set_extractMediaFeatures:
  "set (extractMediaFeatures ps rules)
     = set rules \<union> (\<lambda>f. ''@media ('' @ toLowerCase f @ '')'') ` set (exec_all match_media_feature ps)"
  unfolding extractMediaFeatures_def by (rule set_foldl_set_add)

lemma at_rule_step_mono: "set rules \<subseteq> set (at_rule_step rules node)"
  by (cases node) (auto simp: at_rule_step_def Let_def set_extractMediaFeatures)

lemma foldl_at_rule_step_mono: "set rules \<subseteq> set (foldl at_rule_step rules nodes)"
proof (induction nodes arbitrary: rules)
  case Nil
  show ?case by simp
next
  case (Cons n nodes)
  show ?case using Cons [of "at_rule_step rules n"] at_rule_step_mono [of rules n] by auto
qed

lemma at_rule_step_media:
  assumes "toLowerCase name = ''media''"
  shows "''@media'' \<in> set (at_rule_step rules (AtRule name ps children))"
    and "f \<in> set (exec_all match_media_feature ps) \<Longrightarrow>
         ''@media ('' @ toLowerCase f @ '')'' \<in> set (at_rule_step rules (AtRule name ps children))"
proof -
  show "''@media'' \<in> set (at_rule_step rules (AtRule name ps children))"
    using assms by (simp add: at_rule_step_def Let_def set_extractMediaFeatures)
  assume f: "f \<in> set (exec_all match_media_feature ps)"
  then have "ps \<noteq> []" by auto
  with f show "''@media ('' @ toLowerCase f @ '')''
      \<in> set (at_rule_step rules (AtRule name ps children))"
    using assms by (simp add: at_rule_step_def Let_def set_extractMediaFeatures)
qed

lemma at_rules_from_ast_member:
  assumes "node \<in> set (walk root)" "x \<in> set (at_rule_step rules' node)" "x \<notin> set rules'"
  shows "x \<in> set (extractAtRulesFromAst root rules)"
proof -
  have step: "x \<in> set (at_rule_step r node)" for r
  proof (cases node)
    case (AtRule name ps children)
    with assms(2,3) show ?thesis
      by (auto simp: at_rule_step_def Let_def set_extractMediaFeatures split: if_splits)
  next
    case (Decl p v)
    with assms(2,3) show ?thesis by (simp add: at_rule_step_def)
  next
    case (Rule sel children)
    with assms(2,3) show ?thesis by (simp add: at_rule_step_def)
  next
    case (Comment t)
    with assms(2,3) show ?thesis by (simp add: at_rule_step_def)
  qed
  have "x \<in> set (foldl at_rule_step r nodes)" if "node \<in> set nodes" for r nodes
    using that
  proof (induction nodes arbitrary: r)
    case Nil
    then show ?case by simp
  next
    case (Cons n nodes)
    show ?case
    proof (cases "n = node")
      case True
      then show ?thesis using step [of r] foldl_at_rule_step_mono [of "at_rule_step r n" nodes]
        by auto
    next
      case False
      with Cons.prems have "node \<in> set nodes" by simp
      from Cons.IH [OF this] show ?thesis by simp
    qed
  qed
  from this [OF assms(1)] show ?thesis by (simp add: extractAtRulesFromAst_def)
qed

lemma sample_media_exec:
  "exec_all match_media_feature ''(prefers-color-scheme: dark)'' = [''prefers-color-scheme'']"
proof -
  have m: "match_media_feature (''('' @ [] @ ''prefers-color-scheme'' @ [] @ CHR '':'' # '' dark)'')
       = Some (''prefers-color-scheme'', length ([] :: string) + length ''prefers-color-scheme''
                 + length ([] :: string) + 2)"
    by (rule media_match_intro)
       (simp_all add: char_eval)
  have r: "exec_all match_media_feature '' dark)'' = []"
    by (simp add: match_media_feature_def)
  show ?thesis using m r by simp
qed

lemma sample_media_rules:
  "extractAtRulesFromAst [AtRule ''media'' ''(prefers-color-scheme: dark)'' []] []
     = [''@media'', ''@media (prefers-color-scheme)'']"
  by (simp add: extractAtRulesFromAst_def walk_def at_rule_step_def Let_def
      extractMediaFeatures_def sample_media_exec set_add_def char_eval del: exec_all.simps)

lemma sample_style_tag:
  "exec_all match_style_tag ''<style>@media (prefers-color-scheme: dark){}</style>''
     = [''@media (prefers-color-scheme: dark){}'']"
  by (simp add: match_style_tag_def starts_with_ci_def char_eval Let_def)

lemma sample_no_inline:
  "exec_all match_inline_style ''<style>@media (prefers-color-scheme: dark){}</style>'' = []"
  by (simp add: match_inline_style_def starts_with_ci_def starts_with_def is_quote_def
      char_eval Let_def)

lemma sample_media_upper:
  "toLowerCase ''MEDIA'' = ''media''" "toLowerCase ''Min-Width'' = ''min-width''"
  by (simp_all add: char_eval)

text \<open>
  The at-rules of a tree: \<open>@media\<close> for an at-rule named \<open>media\<close>, and \<open>@media (feature)\<close>
  for every token of its parameter string that is an opening parenthesis, white space, a
  feature name, white space and one of \<open>:\<close>, \<open>,\<close> and \<open>)\<close>.
\<close>

lemma media_features_from_ast:
  assumes node: "AtRule name params children \<in> set (walk root)"
    and media: "toLowerCase name = ''media''"
  shows "''@media'' \<in> set (extractAtRulesFromAst root rules)"
    and "params = pre @ ''('' @ A @ f @ C @ t # rest \<Longrightarrow> list_all is_space A \<Longrightarrow> f \<noteq> []
         \<Longrightarrow> list_all is_name_char f \<Longrightarrow> list_all is_space C \<Longrightarrow> t \<in> set '':,)''
         \<Longrightarrow> ''@media ('' @ toLowerCase f @ '')'' \<in> set (extractAtRulesFromAst root rules)"
proof -
  have "''@media'' \<in> set (at_rule_step [] (AtRule name params children))"
    by (rule at_rule_step_media(1) [OF media])
  from at_rules_from_ast_member [OF node this]
  show "''@media'' \<in> set (extractAtRulesFromAst root rules)" by simp
  assume sh: "params = pre @ ''('' @ A @ f @ C @ t # rest" "list_all is_space A" "f \<noteq> []"
    "list_all is_name_char f" "list_all is_space C" "t \<in> set '':,)''"
  have "match_media_feature (''('' @ A @ f @ C @ t # rest)
           = Some (f, length A + length f + length C + 2)"
    by (rule media_match_intro [OF sh(2-6)])
  from media_exec_finds [OF this, of pre] sh(1)
  have "f \<in> set (exec_all match_media_feature params)" by simp
  then have "''@media ('' @ toLowerCase f @ '')''
      \<in> set (at_rule_step [] (AtRule name params children))"
    by (rule at_rule_step_media(2) [OF media])
  from at_rules_from_ast_member [OF node this]
  show "''@media ('' @ toLowerCase f @ '')'' \<in> set (extractAtRulesFromAst root rules)" by simp
qed

subsection \<open>The at-rule set\<close>

lemma inline_only_scans:
  "exec_all match_style_tag inline_only_html = []"
  "exec_all match_inline_style inline_only_html = [''@media (x){color:red}'']"
  by (simp_all add: inline_only_html_def match_style_tag_def match_inline_style_def
      starts_with_ci_def starts_with_def is_quote_def char_eval Let_def)

lemma inline_only_properties:
  "cssProperties (extractFeatures nesting_parser inline_only_html) = [''color'']"
  "cssProperties (extractFeatures throwing_parser inline_only_html) = [''color'']"
proof -
  have l: "toLowerCase ''color'' = ''color''" "toLowerCase ''red'' = ''red''"
    by (simp_all add: char_eval)
  have c: "remove_all match_comment ''@media (x){color:red}'' = ''@media (x){color:red}''"
    by (simp add: match_comment_def starts_with_def)
  have p: "exec_all match_property ''@media (x){color:red}'' = [''color'']"
    by (simp add: match_property_def starts_with_def char_eval Let_def)
  show "cssProperties (extractFeatures nesting_parser inline_only_html) = [''color'']"
    by (simp add: extractFeatures_def extractInlineStyles_def extractStyleTags_def
        inline_only_scans inline_style_step_def nesting_parser_def Let_def
        extractPropertiesFromAst_def walk_def decl_step_def l starts_with_def set_add_def
        no_value_features_short del: exec_all.simps)
  show "cssProperties (extractFeatures throwing_parser inline_only_html) = [''color'']"
    by (simp add: extractFeatures_def extractInlineStyles_def extractStyleTags_def
        inline_only_scans inline_style_step_def throwing_parser_def Let_def
        extractPropertiesSimple_def c p l starts_with_def set_add_def
        del: exec_all.simps remove_all.simps)
qed

text \<open>
  Claim C9. The at-rule set is filled from \<open><style>\<close> blocks only: \<open>extractInlineStyles\<close>
  has no access to it. For every parser and every document in which the scan for
  \<open><style ...> ... </style>\<close> blocks finds nothing, the returned \<open>cssAtRules\<close> is empty,
  whatever the \<open>style\<close> attributes hold.
\<close>

theorem at_rules_only_from_style_blocks:
  assumes "exec_all match_style_tag html = []"
  shows "cssAtRules (extractFeatures safeParser html) = []"
  using assms by (simp add: extractFeatures_def extractStyleTags_def Let_def)

theorem at_rules_only_from_style_blocks_witness:
  "exec_all match_style_tag inline_only_html = []
   \<and> exec_all match_inline_style inline_only_html = [''@media (x){color:red}'']
   \<and> cssAtRules (extractFeatures nesting_parser inline_only_html) = []
   \<and> cssProperties (extractFeatures nesting_parser inline_only_html) = [''color'']
   \<and> cssAtRules (extractFeatures throwing_parser inline_only_html) = []
   \<and> cssProperties (extractFeatures throwing_parser inline_only_html) = [''color'']"
  using at_rules_only_from_style_blocks [OF inline_only_scans(1), of nesting_parser]
    at_rules_only_from_style_blocks [OF inline_only_scans(1), of throwing_parser]
    inline_only_scans inline_only_properties
  by (intro conjI)

subsection \<open>The lenient fallback\<close>

lemma no_overlap_tail:
  assumes "q @ rest = M @ r" "rest \<noteq> []" "hd rest \<notin> set M"
  shows "length M \<le> length q"
proof (rule ccontr)
  assume "\<not> length M \<le> length q"
  then have k: "length q < length M" by simp
  have "(q @ rest) ! length q = hd rest"
    using assms(2) by (simp add: nth_append hd_conv_nth)
  moreover have "(q @ rest) ! length q = M ! length q"
    using assms(1) k by (simp add: nth_append)
  ultimately show False using assms(3) k by (metis nth_mem)
qed

lemma property_match_intro:
  assumes "name \<noteq> []" "list_all is_name_char name" "list_all is_space C"
  shows "match_property (name @ C @ CHR '':'' # r) = Some (name, length name + length C + 1)"
proof -
  have hc: "\<not> is_name_char (hd (C @ CHR '':'' # r))"
    using assms(3) name_char_not_space special_chars by (cases C) auto
  have nm: "takeWhile is_name_char (name @ C @ CHR '':'' # r) = name"
    "dropWhile is_name_char (name @ C @ CHR '':'' # r) = C @ CHR '':'' # r"
    using run_split [OF assms(2), of "C @ CHR '':'' # r"] hc by simp_all
  have r2: "dropWhile is_space (C @ CHR '':'' # r) = CHR '':'' # r"
    using run_split(2) [OF assms(3), of "CHR '':'' # r"] special_chars by simp
  show ?thesis
    using assms(1) by (simp add: match_property_def Let_def nm r2 starts_with_def)
qed

lemma property_match_elim:
  assumes "match_property s = Some (cap, n)"
  shows "\<exists>C r. s = cap @ C @ CHR '':'' # r \<and> cap \<noteq> [] \<and> list_all is_name_char cap
           \<and> list_all is_space C \<and> n = length cap + length C + 1"
proof -
  define r1 where "r1 = dropWhile is_name_char s"
  define C where "C = takeWhile is_space r1"
  define r2 where "r2 = dropWhile is_space r1"
  from assms have cap: "cap = takeWhile is_name_char s" "cap \<noteq> []"
    and st: "starts_with r2 '':''" and n: "n = length s - length (tl r2)"
    by (auto simp: match_property_def Let_def r1_def r2_def split: if_splits)
  from st obtain r where r2: "r2 = CHR '':'' # r" by (auto simp: starts_with_iff)
  have "s = cap @ r1" "r1 = C @ r2" by (simp_all add: cap r1_def C_def r2_def)
  then have whole: "s = cap @ C @ CHR '':'' # r" using r2 by simp
  have "n = length cap + length C + 1" unfolding n using r2 by (subst whole) simp
  moreover have "list_all is_name_char cap" "list_all is_space C"
    unfolding cap C_def by (rule run_parts(1))+
  ultimately show ?thesis using whole cap(2) by blast
qed

lemma property_exec_finds:
  assumes hit: "match_property rest = Some (f, n)"
    and start: "pre = [] \<or> \<not> is_name_char (last pre)"
  shows "f \<in> set (exec_all match_property (pre @ rest))"
proof (rule exec_all_finds [where n = n])
  show "\<And>s cap n. match_property s = Some (cap, n) \<Longrightarrow> 0 < n \<and> n \<le> length s"
    by (drule property_match_elim) auto
  show "match_property rest = Some (f, n)" by (rule hit)
next
  fix p1 p2 cap' n'
  assume h: "pre = p1 @ p2" "p2 \<noteq> []" "match_property (p2 @ rest) = Some (cap', n')"
  from property_match_elim [OF h(3)] obtain C r where
    sh: "p2 @ rest = cap' @ C @ CHR '':'' # r" "list_all is_name_char cap'"
      "list_all is_space C" "n' = length cap' + length C + 1" by blast
  from property_match_elim [OF hit] obtain C0 r0 where
    "rest = f @ C0 @ CHR '':'' # r0" "f \<noteq> []" "list_all is_name_char f" by blast
  then have hd: "rest \<noteq> []" "is_name_char (hd rest)" by (cases f; simp)+
  have last: "\<not> is_name_char (last p2)" using start h(1,2) by simp
  have longer: "length cap' < length p2"
  proof (rule ccontr)
    assume "\<not> length cap' < length p2"
    then have "p2 = take (length p2) cap'"
      using sh(1) by (metis append_eq_conv_conj leI take_all_iff take_append take_take min.absorb1
          length_take order_refl append_Nil2 diff_is_0_eq' take0)
    then have "set p2 \<subseteq> set cap'" by (metis set_take_subset)
    moreover have "last p2 \<in> set p2" using h(2) by simp
    ultimately have "is_name_char (last p2)"
      using sh(2) by (auto simp: list_all_iff)
    with last show False by simp
  qed
  define q where "q = drop (length cap') p2"
  have p2: "p2 = cap' @ q"
    using sh(1) longer unfolding q_def
    by (metis append_eq_conv_conj append_take_drop_id less_imp_le_nat take_append
        diff_is_0_eq' take0 append_Nil2)
  with sh(1) have "q @ rest = (C @ [CHR '':'']) @ r" by simp
  moreover have "hd rest \<notin> set (C @ [CHR '':''])"
    using hd(2) sh(3) name_char_not_space special_chars by (auto simp: list_all_iff)
  ultimately have "length (C @ [CHR '':'']) \<le> length q"
    using no_overlap_tail hd(1) by blast
  then show "n' \<le> length p2" using sh(4) p2 by simp
qed

lemma at_rule_match_intro:
  assumes "name \<noteq> []" "list_all is_name_char name" "r = [] \<or> \<not> is_name_char (hd r)"
  shows "match_at_rule (CHR ''@'' # name @ r) = Some (name, 1 + length name)"
  using run_split(1) [OF assms(2,3)] assms(1) by (simp add: match_at_rule_def)

lemma at_rule_match_elim:
  assumes "match_at_rule s = Some (cap, n)"
  shows "\<exists>r. s = CHR ''@'' # cap @ r \<and> cap \<noteq> [] \<and> list_all is_name_char cap
           \<and> n = 1 + length cap"
proof -
  from assms obtain c r0 where s: "s = c # r0" by (cases s) (auto simp: match_at_rule_def)
  with assms have c: "c = CHR ''@''" and cap: "cap = takeWhile is_name_char r0" "cap \<noteq> []"
    and n: "n = 1 + length cap"
    by (auto simp: match_at_rule_def split: if_splits)
  have "r0 = cap @ dropWhile is_name_char r0" by (simp add: cap)
  moreover have "list_all is_name_char cap" unfolding cap by (rule run_parts(1))
  ultimately show ?thesis using s c cap(2) n by (metis append_Cons)
qed

lemma at_rule_exec_finds:
  assumes hit: "match_at_rule rest = Some (f, n)"
  shows "f \<in> set (exec_all match_at_rule (pre @ rest))"
proof (rule exec_all_finds [where n = n])
  show "\<And>s cap n. match_at_rule s = Some (cap, n) \<Longrightarrow> 0 < n \<and> n \<le> length s"
    by (drule at_rule_match_elim) auto
  show "match_at_rule rest = Some (f, n)" by (rule hit)
next
  fix p1 p2 cap' n'
  assume h: "pre = p1 @ p2" "p2 \<noteq> []" "match_at_rule (p2 @ rest) = Some (cap', n')"
  from at_rule_match_elim [OF h(3)] obtain r where
    sh: "p2 @ rest = CHR ''@'' # cap' @ r" "list_all is_name_char cap'" "n' = 1 + length cap'"
    by blast
  from at_rule_match_elim [OF hit] obtain r0 where "rest = CHR ''@'' # f @ r0" by blast
  then have hd: "rest \<noteq> []" "hd rest = CHR ''@''" by simp_all
  have "hd rest \<notin> set cap'"
    unfolding hd(2) by (rule not_in_run [OF sh(2) special_chars(4)])
  from no_overlap_by_head [OF sh(1) h(2) hd(1) this] show "n' \<le> length p2"
    using sh(3) by simp
qed

lemma to_lower_dash: "to_lower_char c = CHR ''-'' \<longleftrightarrow> c = CHR ''-''"
  by (auto simp: to_lower_char_code split: if_splits)

lemma set_foldl_cond_add:
  "set (foldl (\<lambda>acc x. if P x then set_add (g x) acc else acc) acc xs)
     = set acc \<union> g ` {x \<in> set xs. P x}"
  by (induction xs arbitrary: acc) auto

lemma distinct_foldl_cond_add:
  "distinct acc \<Longrightarrow> distinct (foldl (\<lambda>acc x. if P x then set_add (g x) acc else acc) acc xs)"
  by (induction xs arbitrary: acc) auto

lemma set_extractPropertiesSimple:
  "set (extractPropertiesSimple css props)
     = set props \<union> toLowerCase `
         {m \<in> set (exec_all match_property (remove_all match_comment css)).
            length (toLowerCase m) > 1 \<and> \<not> starts_with (toLowerCase m) ''-''}"
  unfolding extractPropertiesSimple_def Let_def by (rule set_foldl_cond_add)

lemma set_extractAtRulesSimple:
  "set (extractAtRulesSimple css rules)
     = set rules \<union> (\<lambda>m. ''@'' @ toLowerCase m) ` set (exec_all match_at_rule css)"
  unfolding extractAtRulesSimple_def by (rule set_foldl_set_add)

lemma distinct_extractPropertiesSimple:
  "distinct props \<Longrightarrow> distinct (extractPropertiesSimple css props)"
  unfolding extractPropertiesSimple_def Let_def by (rule distinct_foldl_cond_add)

lemma distinct_extractAtRulesSimple:
  "distinct rules \<Longrightarrow> distinct (extractAtRulesSimple css rules)"
  unfolding extractAtRulesSimple_def by (rule distinct_foldl_set_add)

lemma distinct_extractValueFeatures:
  "distinct props \<Longrightarrow> distinct (extractValueFeatures v props)"
proof -
  have "distinct (foldl (\<lambda>props (feat, pattern).
          if regex_test pattern v then set_add feat props else props) ps fs)"
    if "distinct ps" for ps fs
    using that by (induction fs arbitrary: ps) (auto split: prod.splits)
  then show "distinct props \<Longrightarrow> distinct (extractValueFeatures v props)"
    by (simp add: extractValueFeatures_def)
qed

lemma distinct_decl_step: "distinct (fst st) \<Longrightarrow> distinct (fst (decl_step st node))"
  by (cases node) (simp_all add: decl_step_def Let_def distinct_extractValueFeatures)

lemma distinct_extractPropertiesFromAst:
  "distinct (fst st) \<Longrightarrow> distinct (fst (extractPropertiesFromAst root st))"
proof -
  have "distinct (fst (foldl decl_step s nodes))" if "distinct (fst s)" for s nodes
    using that by (induction nodes arbitrary: s) (simp_all add: distinct_decl_step)
  then show "distinct (fst st) \<Longrightarrow> distinct (fst (extractPropertiesFromAst root st))"
    by (simp add: extractPropertiesFromAst_def)
qed

lemma distinct_extractMediaFeatures:
  "distinct rules \<Longrightarrow> distinct (extractMediaFeatures ps rules)"
  unfolding extractMediaFeatures_def by (rule distinct_foldl_set_add)

lemma distinct_at_rule_step: "distinct rules \<Longrightarrow> distinct (at_rule_step rules node)"
  by (cases node) (simp_all add: at_rule_step_def Let_def distinct_extractMediaFeatures)

lemma distinct_extractAtRulesFromAst:
  "distinct rules \<Longrightarrow> distinct (extractAtRulesFromAst root rules)"
proof -
  have "distinct (foldl at_rule_step r nodes)" if "distinct r" for r nodes
    using that by (induction nodes arbitrary: r) (simp_all add: distinct_at_rule_step)
  then show "distinct rules \<Longrightarrow> distinct (extractAtRulesFromAst root rules)"
    by (simp add: extractAtRulesFromAst_def)
qed

lemma inline_style_step_distinct:
  "distinct (fst st) \<Longrightarrow> distinct (fst (inline_style_step safeParser st content))"
  by (simp add: inline_style_step_def Let_def distinct_extractPropertiesFromAst
      distinct_extractPropertiesSimple split: sum.splits)

lemma extractInlineStyles_distinct:
  "distinct (fst st) \<Longrightarrow> distinct (fst (extractInlineStyles safeParser html st))"
proof -
  have "distinct (fst (foldl (inline_style_step safeParser) s cs))" if "distinct (fst s)" for s cs
    using that by (induction cs arbitrary: s) (simp_all add: inline_style_step_distinct)
  then show "distinct (fst st) \<Longrightarrow> distinct (fst (extractInlineStyles safeParser html st))"
    by (simp add: extractInlineStyles_def)
qed

lemma style_tag_step_distinct:
  assumes "distinct (fst st)" "distinct (fst (snd st))"
  shows "distinct (fst (style_tag_step safeParser st css))"
    and "distinct (fst (snd (style_tag_step safeParser st css)))"
  using assms
  by (auto simp: style_tag_step_def distinct_extractPropertiesFromAst
      distinct_extractPropertiesSimple distinct_extractAtRulesFromAst
      distinct_extractAtRulesSimple split: sum.splits prod.splits)

lemma extractStyleTags_distinct:
  assumes "distinct (fst st)" "distinct (fst (snd st))"
  shows "distinct (fst (extractStyleTags safeParser html st))
       \<and> distinct (fst (snd (extractStyleTags safeParser html st)))"
proof -
  have "distinct (fst (foldl (style_tag_step safeParser) s cs))
      \<and> distinct (fst (snd (foldl (style_tag_step safeParser) s cs)))"
    if "distinct (fst s)" "distinct (fst (snd s))" for s cs
    using that by (induction cs arbitrary: s) (simp_all add: style_tag_step_distinct)
  then show ?thesis using assms by (simp add: extractStyleTags_def)
qed

lemma extractFeatures_distinct:
  "distinct (cssProperties (extractFeatures safeParser html))"
  "distinct (cssAtRules (extractFeatures safeParser html))"
  "distinct (htmlElements (extractFeatures safeParser html))"
  "distinct (htmlAttributes (extractFeatures safeParser html))"
proof -
  have i: "distinct (fst (extractInlineStyles safeParser html ([], Map.empty)))"
    by (rule extractInlineStyles_distinct) simp
  let ?st = "(fst (extractInlineStyles safeParser html ([], Map.empty)), [],
              snd (extractInlineStyles safeParser html ([], Map.empty)))"
  have s: "distinct (fst (extractStyleTags safeParser html ?st))
       \<and> distinct (fst (snd (extractStyleTags safeParser html ?st)))"
    by (rule extractStyleTags_distinct) (simp_all add: i)
  show "distinct (cssProperties (extractFeatures safeParser html))"
    using s by (simp add: extractFeatures_def Let_def)
  show "distinct (cssAtRules (extractFeatures safeParser html))"
    using s by (simp add: extractFeatures_def Let_def)
  show "distinct (htmlElements (extractFeatures safeParser html))"
    by (simp add: extractFeatures_def Let_def extractHtmlElements_def distinct_foldl_set_add)
  show "distinct (htmlAttributes (extractFeatures safeParser html))"
    by (simp add: extractFeatures_def Let_def extractHtmlAttributes_def distinct_foldl_set_add)
qed

lemma split_where_append: "split_where P s = Some (b, r) \<Longrightarrow> s = b @ r"
  by (induction s arbitrary: b) (auto split: if_splits)

lemma matches_advance:
  "match_inline_style s = Some (cap, n) \<Longrightarrow> 0 < n"
  "match_style_tag s = Some (cap, n) \<Longrightarrow> 0 < n"
  "match_media_feature s = Some (cap, n) \<Longrightarrow> 0 < n"
  "match_property s = Some (cap, n) \<Longrightarrow> 0 < n"
  "match_at_rule s = Some (cap, n) \<Longrightarrow> 0 < n"
  "match_tag s = Some (cap, n) \<Longrightarrow> 0 < n"
  "match_attribute s = Some (cap, n) \<Longrightarrow> 0 < n"
  "match_comment s = Some n \<Longrightarrow> 0 < n"
proof -
  have dw: "length (dropWhile P (drop k xs)) \<le> length xs" for P k and xs :: string
    using length_dropWhile_le [of P "drop k xs"] by simp
  have tl_less: "length (tl r) < length s"
    if "r \<noteq> []" "length r \<le> length s" for r s :: string
    using that by (cases r) auto
  show "match_inline_style s = Some (cap, n) \<Longrightarrow> 0 < n"
  proof -
    assume a: "match_inline_style s = Some (cap, n)"
    define r1 where "r1 = dropWhile is_space (drop 5 s)"
    define r2 where "r2 = dropWhile is_space (drop 1 r1)"
    define r4 where "r4 = dropWhile (\<lambda>c. \<not> is_quote c) (drop 1 r2)"
    from a have ne: "r4 \<noteq> []" and n: "n = length s - length (tl r4)"
      by (auto simp: match_inline_style_def Let_def r1_def r2_def r4_def split: if_splits)
    have "length r1 \<le> length s" unfolding r1_def by (rule dw)
    moreover have "length r2 \<le> length r1" unfolding r2_def by (rule dw)
    moreover have "length r4 \<le> length r2" unfolding r4_def by (rule dw)
    ultimately have "length r4 \<le> length s" by simp
    from tl_less [OF ne this] show "0 < n" using n by simp
  qed
  show "match_style_tag s = Some (cap, n) \<Longrightarrow> 0 < n"
  proof -
    assume a: "match_style_tag s = Some (cap, n)"
    define r1 where "r1 = dropWhile (\<lambda>c. c \<noteq> CHR ''>'') (drop 6 s)"
    from a obtain rest where ne: "r1 \<noteq> []"
      and sp: "split_where (\<lambda>t. starts_with_ci t ''</style>'') (tl r1) = Some (cap, rest)"
      and n: "n = length s - length (drop 8 rest)"
      by (auto simp: match_style_tag_def Let_def r1_def split: if_splits option.splits)
    have "length r1 \<le> length s" unfolding r1_def by (rule dw)
    from tl_less [OF ne this] have "length (tl r1) < length s" .
    moreover have "length rest \<le> length (tl r1)"
      using split_where_append [OF sp] by simp
    ultimately show "0 < n" using n by simp
  qed
  show "match_media_feature s = Some (cap, n) \<Longrightarrow> 0 < n"
    by (drule media_match_elim) auto
  show "match_property s = Some (cap, n) \<Longrightarrow> 0 < n"
    by (drule property_match_elim) auto
  show "match_at_rule s = Some (cap, n) \<Longrightarrow> 0 < n"
    by (drule at_rule_match_elim) auto
  show "match_tag s = Some (cap, n) \<Longrightarrow> 0 < n"
    by (auto simp: match_tag_def split: list.splits if_splits)
  show "match_attribute s = Some (cap, n) \<Longrightarrow> 0 < n"
  proof -
    assume a: "match_attribute s = Some (cap, n)"
    then obtain c b r where s: "s = c # b # r"
      by (auto simp: match_attribute_def split: list.splits)
    define r2 where "r2 = dropWhile is_space (dropWhile is_word_char r)"
    from a s have st: "starts_with r2 ''=''" and n: "n = length s - length (tl r2)"
      by (auto simp: match_attribute_def Let_def r2_def split: if_splits)
    from st have ne: "r2 \<noteq> []" by (auto simp: starts_with_iff)
    have "length r2 \<le> length r"
      unfolding r2_def
      using length_dropWhile_le [of is_space "dropWhile is_word_char r"]
        length_dropWhile_le [of is_word_char r] by simp
    then have "length r2 \<le> length s" using s by simp
    from tl_less [OF ne this] show "0 < n" using n by simp
  qed
  show "match_comment s = Some n \<Longrightarrow> 0 < n"
    by (auto simp: match_comment_def split: if_splits option.splits)
qed

lemma extractPropertiesFromAst_mono:
  "set (fst st) \<subseteq> set (fst (extractPropertiesFromAst root st))"
  unfolding extractPropertiesFromAst_def by (rule foldl_decl_step_mono(1))

lemma style_tag_step_mono:
  "set (fst st) \<subseteq> set (fst (style_tag_step safeParser st css))"
  "set (fst (snd st)) \<subseteq> set (fst (snd (style_tag_step safeParser st css)))"
proof -
  obtain ps rs vs where st: "st = (ps, rs, vs)" by (cases st)
  show "set (fst st) \<subseteq> set (fst (style_tag_step safeParser st css))"
    using extractPropertiesFromAst_mono [of "(ps, vs)"]
    by (auto simp: st style_tag_step_def set_extractPropertiesSimple split: sum.splits)
  show "set (fst (snd st)) \<subseteq> set (fst (snd (style_tag_step safeParser st css)))"
    using foldl_at_rule_step_mono [of rs]
    by (auto simp: st style_tag_step_def set_extractAtRulesSimple extractAtRulesFromAst_def
        split: sum.splits)
qed

lemma foldl_style_tag_step_mono:
  "set (fst st) \<subseteq> set (fst (foldl (style_tag_step safeParser) st cs))"
  "set (fst (snd st)) \<subseteq> set (fst (snd (foldl (style_tag_step safeParser) st cs)))"
proof (induction cs arbitrary: st)
  case Nil
  { case 1 show ?case by simp }
  { case 2 show ?case by simp }
next
  case (Cons c cs)
  { case 1 show ?case
      using Cons.IH(1) [of "style_tag_step safeParser st c"] style_tag_step_mono(1) [of st]
      by auto }
  { case 2 show ?case
      using Cons.IH(2) [of "style_tag_step safeParser st c"] style_tag_step_mono(2) [of st]
      by auto }
qed

lemma style_tag_step_fallback:
  assumes "safeParser css = Inl e"
  shows "style_tag_step safeParser (props, rules, vals) css
           = (extractPropertiesSimple css props, extractAtRulesSimple css rules, vals)"
  using assms by (simp add: style_tag_step_def)

lemma style_tag_step_fallback_state:
  assumes "safeParser css = Inl e"
  shows "style_tag_step safeParser st css
           = (extractPropertiesSimple css (fst st), extractAtRulesSimple css (fst (snd st)),
              snd (snd st))"
  using assms by (cases st) (simp add: style_tag_step_def)

lemma failing_block_reaches_result:
  assumes "css \<in> set cs" "safeParser css = Inl e"
  shows "set (extractPropertiesSimple css []) \<subseteq> set (fst (foldl (style_tag_step safeParser) st cs))"
    and "set (extractAtRulesSimple css [])
           \<subseteq> set (fst (snd (foldl (style_tag_step safeParser) st cs)))"
  using assms(1)
proof (induction cs arbitrary: st)
  case Nil
  { case 1 then show ?case by simp }
  { case 2 then show ?case by simp }
next
  case (Cons c cs)
  { case 1
    show ?case
    proof (cases "c = css")
      case True
      have "set (extractPropertiesSimple css []) \<subseteq> set (fst (style_tag_step safeParser st c))"
        by (auto simp: True style_tag_step_fallback_state [of safeParser css e, OF assms(2)]
            set_extractPropertiesSimple)
      then show ?thesis
        using foldl_style_tag_step_mono(1) [of "style_tag_step safeParser st c" safeParser cs]
        by auto
    next
      case False
      with 1 have "css \<in> set cs" by simp
      from Cons.IH(1) [OF this] show ?thesis by simp
    qed }
  { case 2
    show ?case
    proof (cases "c = css")
      case True
      have "set (extractAtRulesSimple css [])
          \<subseteq> set (fst (snd (style_tag_step safeParser st c)))"
        by (auto simp: True style_tag_step_fallback_state [of safeParser css e, OF assms(2)]
            set_extractAtRulesSimple)
      then show ?thesis
        using foldl_style_tag_step_mono(2) [of "style_tag_step safeParser st c" safeParser cs]
        by auto
    next
      case False
      with 2 have "css \<in> set cs" by simp
      from Cons.IH(2) [OF this] show ?thesis by simp
    qed }
qed

lemma property_token_recorded:
  assumes "remove_all match_comment css = pre @ name @ C @ CHR '':'' # rest"
    and "pre = [] \<or> \<not> is_name_char (last pre)"
    and "list_all is_name_char name" "list_all is_space C"
    and "2 \<le> length name" "hd name \<noteq> CHR ''-''"
  shows "toLowerCase name \<in> set (extractPropertiesSimple css props)"
proof -
  from assms(5) have ne: "name \<noteq> []" by auto
  have "match_property (name @ C @ CHR '':'' # rest) = Some (name, length name + length C + 1)"
    by (rule property_match_intro [OF ne assms(3,4)])
  from property_exec_finds [OF this assms(2)]
  have m: "name \<in> set (exec_all match_property (remove_all match_comment css))"
    by (simp add: assms(1))
  have "hd (toLowerCase name) \<noteq> CHR ''-''"
    using ne assms(6) by (cases name) (simp_all add: toLowerCase_def to_lower_dash)
  then have "\<not> starts_with (toLowerCase name) ''-''"
    using ne by (cases name) (simp_all add: starts_with_def toLowerCase_def)
  moreover have "length (toLowerCase name) > 1" using assms(5) by (simp add: toLowerCase_def)
  ultimately show ?thesis using m by (auto simp: set_extractPropertiesSimple)
qed

lemma at_rule_token_recorded:
  assumes "css = pre @ CHR ''@'' # name @ rest"
    and "name \<noteq> []" "list_all is_name_char name" "rest = [] \<or> \<not> is_name_char (hd rest)"
  shows "''@'' @ toLowerCase name \<in> set (extractAtRulesSimple css rules)"
proof -
  have "match_at_rule (CHR ''@'' # name @ rest) = Some (name, 1 + length name)"
    by (rule at_rule_match_intro [OF assms(2-4)])
  from at_rule_exec_finds [OF this, of pre]
  have "name \<in> set (exec_all match_at_rule css)" by (simp add: assms(1))
  then show ?thesis by (auto simp: set_extractAtRulesSimple)
qed

lemma lowercase_toLowerCase: "lowercase (toLowerCase s)"
  by (simp add: lowercase_def toLowerCase_def list_all_iff to_lower_not_upper)

lemma lowercase_append: "lowercase (a @ b) \<longleftrightarrow> lowercase a \<and> lowercase b"
  by (simp add: lowercase_def)

lemma lowercase_Cons: "lowercase (c # s) \<longleftrightarrow> \<not> is_upper c \<and> lowercase s"
  by (simp add: lowercase_def)

lemma at_not_upper: "\<not> is_upper (CHR ''@'')"
  by (simp add: is_upper_def upper_chars_def)

lemma lowercase_drop: "lowercase s \<Longrightarrow> lowercase (drop n s)"
  by (auto simp: lowercase_def list_all_iff dest: in_set_dropD)

lemma lowercase_strip_vendor_prefix: "lowercase s \<Longrightarrow> lowercase (strip_vendor_prefix s)"
  by (simp add: strip_vendor_prefix_def lowercase_drop)

lemma lowercase_literals:
  "lowercase ''@''" "lowercase ''@media (''" "lowercase '')''" "lowercase ''@supports''"
  by (simp_all add: lowercase_def is_upper_def upper_chars_def)

lemma lowercase_feature_names: "(feat, pat) \<in> set cssFeatures \<Longrightarrow> lowercase feat"
  by (auto simp: cssFeatures_def lowercase_def is_upper_def upper_chars_def)

lemma all_lowercase_iff: "all_lowercase xs \<longleftrightarrow> (\<forall>x \<in> set xs. lowercase x)"
  by (simp add: all_lowercase_def list_all_iff)

lemma all_lowercase_superset:
  assumes "all_lowercase xs" "set ys \<subseteq> set xs \<union> N" "\<And>x. x \<in> N \<Longrightarrow> lowercase x"
  shows "all_lowercase ys"
  using assms unfolding all_lowercase_iff by blast

lemma all_lowercase_decl_step:
  assumes "all_lowercase (fst st)"
  shows "all_lowercase (fst (decl_step st node))"
proof (cases node)
  case (Decl p v)
  let ?N = "{if starts_with (toLowerCase p) ''-'' then strip_vendor_prefix (toLowerCase p)
           else toLowerCase p}
       \<union> {feat. \<exists>pat. (feat, pat) \<in> set cssFeatures \<and> regex_test pat (toLowerCase v)}"
  show ?thesis
  proof (rule all_lowercase_superset [OF assms, of _ ?N])
    show "set (fst (decl_step st node)) \<subseteq> set (fst st) \<union> ?N"
      unfolding Decl decl_step_props by blast
    show "\<And>x. x \<in> ?N \<Longrightarrow> lowercase x"
      using lowercase_toLowerCase lowercase_strip_vendor_prefix lowercase_feature_names
      by (auto split: if_splits)
  qed
next
  case (AtRule n ps ch)
  with assms show ?thesis by (simp add: decl_step_def)
next
  case (Rule sel ch)
  with assms show ?thesis by (simp add: decl_step_def)
next
  case (Comment t)
  with assms show ?thesis by (simp add: decl_step_def)
qed

lemma all_lowercase_extractPropertiesFromAst:
  "all_lowercase (fst st) \<Longrightarrow> all_lowercase (fst (extractPropertiesFromAst root st))"
proof -
  have "all_lowercase (fst (foldl decl_step s nodes))" if "all_lowercase (fst s)" for s nodes
    using that by (induction nodes arbitrary: s) (simp_all add: all_lowercase_decl_step)
  then show "all_lowercase (fst st) \<Longrightarrow> all_lowercase (fst (extractPropertiesFromAst root st))"
    by (simp add: extractPropertiesFromAst_def)
qed

lemma all_lowercase_extractPropertiesSimple:
  assumes "all_lowercase props"
  shows "all_lowercase (extractPropertiesSimple css props)"
  by (rule all_lowercase_superset [OF assms, of _ "range toLowerCase"])
     (auto simp: set_extractPropertiesSimple lowercase_toLowerCase)

lemma all_lowercase_extractAtRulesSimple:
  assumes "all_lowercase rules"
  shows "all_lowercase (extractAtRulesSimple css rules)"
  by (rule all_lowercase_superset [OF assms, of _ "range (\<lambda>m. ''@'' @ toLowerCase m)"])
     (auto simp: set_extractAtRulesSimple lowercase_toLowerCase lowercase_Cons at_not_upper)

lemma all_lowercase_set_add:
  "all_lowercase xs \<Longrightarrow> lowercase x \<Longrightarrow> all_lowercase (set_add x xs)"
  by (simp add: all_lowercase_iff)

lemma lowercase_media: "lowercase (''@media ('' @ toLowerCase f @ '')'')"
  unfolding lowercase_append
  by (intro conjI lowercase_literals lowercase_toLowerCase)

lemma all_lowercase_extractMediaFeatures:
  assumes "all_lowercase rules"
  shows "all_lowercase (extractMediaFeatures ps rules)"
proof (rule all_lowercase_superset [OF assms,
        of _ "range (\<lambda>f. ''@media ('' @ toLowerCase f @ '')'')"])
  show "set (extractMediaFeatures ps rules)
      \<subseteq> set rules \<union> range (\<lambda>f. ''@media ('' @ toLowerCase f @ '')'')"
    unfolding set_extractMediaFeatures by blast
next
  fix x
  assume "x \<in> range (\<lambda>f. ''@media ('' @ toLowerCase f @ '')'')"
  then obtain f where "x = ''@media ('' @ toLowerCase f @ '')''" by blast
  then show "lowercase x" by (simp only: lowercase_media)
qed

lemma all_lowercase_at_rule_step:
  assumes "all_lowercase rules"
  shows "all_lowercase (at_rule_step rules node)"
proof (cases node)
  case (AtRule n ps ch)
  have a: "lowercase (''@'' @ toLowerCase n)"
    by (simp add: lowercase_Cons at_not_upper lowercase_toLowerCase)
  define r1 where "r1 = set_add (''@'' @ toLowerCase n) rules"
  define r2 where "r2 = (if toLowerCase n = ''media'' \<and> ps \<noteq> []
                         then extractMediaFeatures ps r1 else r1)"
  have 1: "all_lowercase r1"
    unfolding r1_def by (rule all_lowercase_set_add [OF assms a])
  have 2: "all_lowercase r2"
    unfolding r2_def using 1 all_lowercase_extractMediaFeatures [OF 1] by (simp only: if_split) blast
  have e: "at_rule_step rules node
             = (if toLowerCase n = ''supports'' then set_add ''@supports'' r2 else r2)"
    by (simp only: AtRule at_rule_step_def Let_def css_node.case r1_def r2_def)
  show ?thesis
    unfolding e using 2 all_lowercase_set_add [OF 2 lowercase_literals(4)]
    by (simp only: if_split) blast
next
  case (Decl p v)
  with assms show ?thesis by (simp add: at_rule_step_def)
next
  case (Rule sel ch)
  with assms show ?thesis by (simp add: at_rule_step_def)
next
  case (Comment t)
  with assms show ?thesis by (simp add: at_rule_step_def)
qed

lemma all_lowercase_extractAtRulesFromAst:
  "all_lowercase rules \<Longrightarrow> all_lowercase (extractAtRulesFromAst root rules)"
proof -
  have "all_lowercase (foldl at_rule_step r nodes)" if "all_lowercase r" for r nodes
    using that by (induction nodes arbitrary: r) (simp_all add: all_lowercase_at_rule_step)
  then show "all_lowercase rules \<Longrightarrow> all_lowercase (extractAtRulesFromAst root rules)"
    by (simp add: extractAtRulesFromAst_def)
qed

lemma all_lowercase_extractInlineStyles:
  "all_lowercase (fst st) \<Longrightarrow> all_lowercase (fst (extractInlineStyles safeParser html st))"
proof -
  have step: "all_lowercase (fst (inline_style_step safeParser s c))"
    if "all_lowercase (fst s)" for s c
    using that
    by (simp add: inline_style_step_def Let_def all_lowercase_extractPropertiesFromAst
        all_lowercase_extractPropertiesSimple split: sum.splits)
  have "all_lowercase (fst (foldl (inline_style_step safeParser) s cs))"
    if "all_lowercase (fst s)" for s cs
    using that by (induction cs arbitrary: s) (simp_all add: step)
  then show "all_lowercase (fst st) \<Longrightarrow>
      all_lowercase (fst (extractInlineStyles safeParser html st))"
    by (simp add: extractInlineStyles_def)
qed

lemma all_lowercase_extractStyleTags:
  assumes "all_lowercase (fst st)" "all_lowercase (fst (snd st))"
  shows "all_lowercase (fst (extractStyleTags safeParser html st))
       \<and> all_lowercase (fst (snd (extractStyleTags safeParser html st)))"
proof -
  have step: "all_lowercase (fst (style_tag_step safeParser s c))
      \<and> all_lowercase (fst (snd (style_tag_step safeParser s c)))"
    if "all_lowercase (fst s)" "all_lowercase (fst (snd s))" for s c
    using that
    by (auto simp: style_tag_step_def all_lowercase_extractPropertiesFromAst
        all_lowercase_extractPropertiesSimple all_lowercase_extractAtRulesFromAst
        all_lowercase_extractAtRulesSimple split: sum.splits prod.splits)
  have "all_lowercase (fst (foldl (style_tag_step safeParser) s cs))
      \<and> all_lowercase (fst (snd (foldl (style_tag_step safeParser) s cs)))"
    if "all_lowercase (fst s)" "all_lowercase (fst (snd s))" for s cs
    using that by (induction cs arbitrary: s) (simp_all add: step)
  then show ?thesis using assms by (simp add: extractStyleTags_def)
qed

lemma all_lowercase_lowered:
  "all_lowercase (foldl (\<lambda>acc m. set_add (toLowerCase m) acc) [] ms)"
  by (rule all_lowercase_superset [of "[]" _ "range toLowerCase"])
     (auto simp: set_foldl_set_add lowercase_toLowerCase all_lowercase_def)

lemma extractFeatures_lowercase:
  "all_lowercase (cssProperties (extractFeatures safeParser html))"
  "all_lowercase (cssAtRules (extractFeatures safeParser html))"
  "all_lowercase (htmlElements (extractFeatures safeParser html))"
  "all_lowercase (htmlAttributes (extractFeatures safeParser html))"
proof -
  have e: "all_lowercase []" by (simp add: all_lowercase_def)
  have i: "all_lowercase (fst (extractInlineStyles safeParser html ([], Map.empty)))"
    by (rule all_lowercase_extractInlineStyles) (simp add: e)
  let ?st = "(fst (extractInlineStyles safeParser html ([], Map.empty)), [],
              snd (extractInlineStyles safeParser html ([], Map.empty)))"
  have s: "all_lowercase (fst (extractStyleTags safeParser html ?st))
       \<and> all_lowercase (fst (snd (extractStyleTags safeParser html ?st)))"
    by (rule all_lowercase_extractStyleTags) (simp_all add: i e)
  show "all_lowercase (cssProperties (extractFeatures safeParser html))"
    using s by (simp add: extractFeatures_def Let_def)
  show "all_lowercase (cssAtRules (extractFeatures safeParser html))"
    using s by (simp add: extractFeatures_def Let_def)
  show "all_lowercase (htmlElements (extractFeatures safeParser html))"
    by (simp add: extractFeatures_def Let_def extractHtmlElements_def all_lowercase_lowered)
  show "all_lowercase (htmlAttributes (extractFeatures safeParser html))"
    by (simp add: extractFeatures_def Let_def extractHtmlAttributes_def all_lowercase_lowered)
qed

lemma malformed_scans:
  "exec_all match_style_tag malformed_html = [''@media x{.a{color:red;;; .b{'']"
  "exec_all match_inline_style malformed_html = []"
  "remove_all match_comment ''@media x{.a{color:red;;; .b{'' = ''@media x{.a{color:red;;; .b{''"
  "exec_all match_property ''@media x{.a{color:red;;; .b{'' = [''color'']"
  "exec_all match_at_rule ''@media x{.a{color:red;;; .b{'' = [''media'']"
  by (simp_all add: malformed_html_def match_style_tag_def match_inline_style_def
      match_comment_def match_property_def match_at_rule_def
      starts_with_ci_def starts_with_def is_quote_def char_eval Let_def)

lemma malformed_result:
  "cssProperties (extractFeatures throwing_parser malformed_html) = [''color'']"
  "cssAtRules (extractFeatures throwing_parser malformed_html) = [''@media'']"
proof -
  have l: "toLowerCase ''color'' = ''color''" "toLowerCase ''media'' = ''media''"
    by (simp_all add: char_eval)
  show "cssProperties (extractFeatures throwing_parser malformed_html) = [''color'']"
    by (simp add: extractFeatures_def extractInlineStyles_def extractStyleTags_def
        malformed_scans style_tag_step_def throwing_parser_def Let_def
        extractPropertiesSimple_def l starts_with_def set_add_def
        del: exec_all.simps remove_all.simps)
  show "cssAtRules (extractFeatures throwing_parser malformed_html) = [''@media'']"
    by (simp add: extractFeatures_def extractInlineStyles_def extractStyleTags_def
        malformed_scans style_tag_step_def throwing_parser_def Let_def
        extractAtRulesSimple_def l set_add_def
        del: exec_all.simps remove_all.simps)
qed

text \<open>
  Claim C7. Feature extraction is total: for every document and every parser, also one
  that throws, it returns four identifier sets without duplicates and without upper-case
  letters, and every scanning loop advances, since every match holds at least one
  character. When the parser throws on a style block, the step of that block is the
  lenient extraction on the same text: comments are stripped, then every token \<open>name:\<close> (a
  whole run of letters and dashes, at least two characters, not starting with \<open>-\<close>, then
  white space and a colon) is in the property set in lower case, and every token \<open>@name\<close>
  of the text is in the at-rule set.
\<close>

theorem extraction_total_with_fallback:
  "distinct (cssProperties (extractFeatures safeParser html))
   \<and> distinct (cssAtRules (extractFeatures safeParser html))
   \<and> distinct (htmlElements (extractFeatures safeParser html))
   \<and> distinct (htmlAttributes (extractFeatures safeParser html))
   \<and> all_lowercase (cssProperties (extractFeatures safeParser html))
   \<and> all_lowercase (cssAtRules (extractFeatures safeParser html))
   \<and> all_lowercase (htmlElements (extractFeatures safeParser html))
   \<and> all_lowercase (htmlAttributes (extractFeatures safeParser html))
   \<and> (\<forall>s cap n. match_inline_style s = Some (cap, n) \<or> match_style_tag s = Some (cap, n)
          \<or> match_media_feature s = Some (cap, n) \<or> match_property s = Some (cap, n)
          \<or> match_at_rule s = Some (cap, n) \<or> match_tag s = Some (cap, n)
          \<or> match_attribute s = Some (cap, n) \<or> match_comment s = Some n \<longrightarrow> 0 < n)
   \<and> (safeParser css = Inl e \<longrightarrow>
         style_tag_step safeParser (props, rules, vals) css
           = (extractPropertiesSimple css props, extractAtRulesSimple css rules, vals))
   \<and> (css \<in> set (exec_all match_style_tag html) \<and> safeParser css = Inl e \<longrightarrow>
         (\<forall>pre name C rest.
             remove_all match_comment css = pre @ name @ C @ CHR '':'' # rest
             \<and> (pre = [] \<or> \<not> is_name_char (last pre))
             \<and> list_all is_name_char name \<and> list_all is_space C
             \<and> 2 \<le> length name \<and> hd name \<noteq> CHR ''-''
             \<longrightarrow> toLowerCase name \<in> set (cssProperties (extractFeatures safeParser html)))
         \<and> (\<forall>pre name rest.
             css = pre @ CHR ''@'' # name @ rest \<and> name \<noteq> [] \<and> list_all is_name_char name
             \<and> (rest = [] \<or> \<not> is_name_char (hd rest))
             \<longrightarrow> ''@'' @ toLowerCase name \<in> set (cssAtRules (extractFeatures safeParser html))))"
proof -
  let ?inline = "extractInlineStyles safeParser html ([], Map.empty)"
  let ?st = "(fst ?inline, [] :: string list, snd ?inline)"
  have props: "cssProperties (extractFeatures safeParser html)
      = fst (foldl (style_tag_step safeParser) ?st (exec_all match_style_tag html))"
    and rules: "cssAtRules (extractFeatures safeParser html)
      = fst (snd (foldl (style_tag_step safeParser) ?st (exec_all match_style_tag html)))"
    by (simp_all add: extractFeatures_def extractStyleTags_def Let_def)
  have adv: "\<forall>s cap n. match_inline_style s = Some (cap, n) \<or> match_style_tag s = Some (cap, n)
          \<or> match_media_feature s = Some (cap, n) \<or> match_property s = Some (cap, n)
          \<or> match_at_rule s = Some (cap, n) \<or> match_tag s = Some (cap, n)
          \<or> match_attribute s = Some (cap, n) \<or> match_comment s = Some n \<longrightarrow> 0 < n"
    by (auto dest: matches_advance)
  have fb: "safeParser css = Inl e \<longrightarrow>
         style_tag_step safeParser (props, rules, vals) css
           = (extractPropertiesSimple css props, extractAtRulesSimple css rules, vals)"
    by (simp add: style_tag_step_def)
  have tok: "css \<in> set (exec_all match_style_tag html) \<and> safeParser css = Inl e \<longrightarrow>
         (\<forall>pre name C rest.
             remove_all match_comment css = pre @ name @ C @ CHR '':'' # rest
             \<and> (pre = [] \<or> \<not> is_name_char (last pre))
             \<and> list_all is_name_char name \<and> list_all is_space C
             \<and> 2 \<le> length name \<and> hd name \<noteq> CHR ''-''
             \<longrightarrow> toLowerCase name \<in> set (cssProperties (extractFeatures safeParser html)))
         \<and> (\<forall>pre name rest.
             css = pre @ CHR ''@'' # name @ rest \<and> name \<noteq> [] \<and> list_all is_name_char name
             \<and> (rest = [] \<or> \<not> is_name_char (hd rest))
             \<longrightarrow> ''@'' @ toLowerCase name \<in> set (cssAtRules (extractFeatures safeParser html)))"
  proof (intro impI conjI allI)
    assume h: "css \<in> set (exec_all match_style_tag html) \<and> safeParser css = Inl e"
    then have blk: "css \<in> set (exec_all match_style_tag html)" and thr: "safeParser css = Inl e"
      by simp_all
    note reach = failing_block_reaches_result
      [of css "exec_all match_style_tag html" safeParser e ?st, OF blk thr]
    { fix pre name C rest
      assume t: "remove_all match_comment css = pre @ name @ C @ CHR '':'' # rest
             \<and> (pre = [] \<or> \<not> is_name_char (last pre))
             \<and> list_all is_name_char name \<and> list_all is_space C
             \<and> 2 \<le> length name \<and> hd name \<noteq> CHR ''-''"
      then have "toLowerCase name \<in> set (extractPropertiesSimple css [])"
        using property_token_recorded [of css pre name C rest "[]"] by blast
      then show "toLowerCase name \<in> set (cssProperties (extractFeatures safeParser html))"
        using reach(1) unfolding props by blast }
    { fix pre name rest
      assume t: "css = pre @ CHR ''@'' # name @ rest \<and> name \<noteq> [] \<and> list_all is_name_char name
             \<and> (rest = [] \<or> \<not> is_name_char (hd rest))"
      then have "''@'' @ toLowerCase name \<in> set (extractAtRulesSimple css [])"
        using at_rule_token_recorded [of css pre name rest "[]"] by blast
      then show "''@'' @ toLowerCase name \<in> set (cssAtRules (extractFeatures safeParser html))"
        using reach(2) unfolding rules by blast }
  qed
  from extractFeatures_distinct [of safeParser html] extractFeatures_lowercase [of safeParser html]
    adv fb tok
  show ?thesis by (intro conjI)
qed

theorem extraction_total_with_fallback_witness:
  "''@media x{.a{color:red;;; .b{'' \<in> set (exec_all match_style_tag malformed_html)
   \<and> throwing_parser ''@media x{.a{color:red;;; .b{'' = Inl (Thrown ''CssSyntaxError'')
   \<and> remove_all match_comment ''@media x{.a{color:red;;; .b{''
        = ''@media x{.a{'' @ ''color'' @ [] @ CHR '':'' # ''red;;; .b{''
   \<and> \<not> is_name_char (last ''@media x{.a{'') \<and> list_all is_name_char ''color''
   \<and> 2 \<le> length ''color'' \<and> hd ''color'' \<noteq> CHR ''-''
   \<and> toLowerCase ''color'' \<in> set (cssProperties (extractFeatures throwing_parser malformed_html))
   \<and> ''@'' @ toLowerCase ''media''
        \<in> set (cssAtRules (extractFeatures throwing_parser malformed_html))
   \<and> cssProperties (extractFeatures throwing_parser malformed_html) = [''color'']
   \<and> cssAtRules (extractFeatures throwing_parser malformed_html) = [''@media'']
   \<and> distinct (cssProperties (extractFeatures throwing_parser malformed_html))
   \<and> all_lowercase (cssProperties (extractFeatures throwing_parser malformed_html))"
proof -
  let ?css = "''@media x{.a{color:red;;; .b{''"
  note t = extraction_total_with_fallback
    [of throwing_parser malformed_html ?css "Thrown ''CssSyntaxError''" "[]" "[]" Map.empty]
  have blk: "?css \<in> set (exec_all match_style_tag malformed_html)"
    by (simp add: malformed_scans)
  have thr: "throwing_parser ?css = Inl (Thrown ''CssSyntaxError'')"
    by (simp add: throwing_parser_def)
  have sh1: "remove_all match_comment ?css
        = ''@media x{.a{'' @ ''color'' @ [] @ CHR '':'' # ''red;;; .b{''
      \<and> ([] = ''@media x{.a{'' \<or> \<not> is_name_char (last ''@media x{.a{''))
      \<and> list_all is_name_char ''color'' \<and> list_all is_space []
      \<and> 2 \<le> length ''color'' \<and> hd ''color'' \<noteq> CHR ''-''"
    by (simp add: malformed_scans char_eval del: remove_all.simps)
  have sh2: "?css = [] @ CHR ''@'' # ''media'' @ '' x{.a{color:red;;; .b{''
      \<and> ''media'' \<noteq> [] \<and> list_all is_name_char ''media''
      \<and> ('' x{.a{color:red;;; .b{'' = [] \<or> \<not> is_name_char (hd '' x{.a{color:red;;; .b{''))"
    by (simp add: char_eval)
  from t blk thr sh1
  have 1: "toLowerCase ''color''
      \<in> set (cssProperties (extractFeatures throwing_parser malformed_html))"
    by blast
  from t blk thr sh2
  have 2: "''@'' @ toLowerCase ''media''
      \<in> set (cssAtRules (extractFeatures throwing_parser malformed_html))"
    by blast
  from t have 3: "distinct (cssProperties (extractFeatures throwing_parser malformed_html))"
    and 4: "all_lowercase (cssProperties (extractFeatures throwing_parser malformed_html))"
    by blast+
  from sh1 have s: "remove_all match_comment ?css
        = ''@media x{.a{'' @ ''color'' @ [] @ CHR '':'' # ''red;;; .b{''"
    "\<not> is_name_char (last ''@media x{.a{'')" "list_all is_name_char ''color''"
    "2 \<le> length ''color''" "hd ''color'' \<noteq> CHR ''-''"
    by simp_all
  from blk thr s 1 2 malformed_result 3 4 show ?thesis by (intro conjI)
qed

subsection \<open>Media features of style blocks\<close>

lemma style_tag_step_parsed_state:
  assumes "safeParser css = Inr root"
  shows "fst (snd (style_tag_step safeParser st css)) = extractAtRulesFromAst root (fst (snd st))"
  using assms by (cases st) (simp add: style_tag_step_def)

lemma parsed_block_reaches_result:
  assumes "css \<in> set cs" "safeParser css = Inr root"
    and "\<And>rs. x \<in> set (extractAtRulesFromAst root rs)"
  shows "x \<in> set (fst (snd (foldl (style_tag_step safeParser) st cs)))"
  using assms(1)
proof (induction cs arbitrary: st)
  case Nil
  then show ?case by simp
next
  case (Cons c cs)
  show ?case
  proof (cases "c = css")
    case True
    have "x \<in> set (fst (snd (style_tag_step safeParser st c)))"
      unfolding True style_tag_step_parsed_state [of safeParser css root, OF assms(2)]
      by (rule assms(3))
    then show ?thesis
      using foldl_style_tag_step_mono(2) [of "style_tag_step safeParser st c" safeParser cs]
      by auto
  next
    case False
    with Cons.prems have "css \<in> set cs" by simp
    from Cons.IH [OF this] show ?thesis by simp
  qed
qed

lemma media_html_scans:
  "exec_all match_style_tag media_html = [''@MEDIA screen and ( Min-Width : 600px){}'']"
  by (simp add: media_html_def match_style_tag_def starts_with_ci_def char_eval Let_def)

text \<open>
  Claim C8 speaks of every successfully parsed \<open>@media\<close> at-rule. The text of a \<open>style\<close>
  attribute is parsed too, but only \<open>extractPropertiesFromAst\<close> runs on its tree: the
  at-rule set is not passed to \<open>extractInlineStyles\<close>. In the document
  \<open><p style="@media (x){color:red}">\<close> the attribute is parsed to a rule that holds the
  at-rule \<open>media\<close>; its declaration gives the property \<open>color\<close>, and the at-rule set does
  not get \<open>@media\<close>.
\<close>

theorem inline_media_not_recorded_counterexample:
  "exec_all match_inline_style inline_only_html = [''@media (x){color:red}'']
   \<and> nesting_parser (''* { '' @ ''@media (x){color:red}'' @ '' }'')
        = Inr [Rule ''*'' [AtRule ''media'' ''(x)'' [Decl ''color'' ''red'']]]
   \<and> AtRule ''media'' ''(x)'' [Decl ''color'' ''red'']
        \<in> set (walk [Rule ''*'' [AtRule ''media'' ''(x)'' [Decl ''color'' ''red'']]])
   \<and> toLowerCase ''media'' = ''media''
   \<and> cssProperties (extractFeatures nesting_parser inline_only_html) = [''color'']
   \<and> ''@media'' \<notin> set (cssAtRules (extractFeatures nesting_parser inline_only_html))"
proof -
  have "cssAtRules (extractFeatures nesting_parser inline_only_html) = []"
    by (simp add: extractFeatures_def extractStyleTags_def inline_only_scans(1) Let_def)
  moreover have "toLowerCase ''media'' = ''media''" by (simp add: char_eval)
  ultimately show ?thesis
    by (simp add: inline_only_scans(2) inline_only_properties(1) nesting_parser_def walk_def)
qed

text \<open>
  Claim C8, amended. For every \<open>@media\<close> at-rule in the tree that the parser returns for a
  \<open><style>\<close> block of the document, the extraction records \<open>@media\<close> in the at-rule set,
  and records \<open>@media (feature)\<close> for every token of the parameter string that is an
  opening parenthesis, white space, a feature name (letters and dashes), white space and
  one of \<open>:\<close>, \<open>,\<close> and \<open>)\<close>, with the feature name in lower case. In particular, when the
  parser gives the tree of
  \<open>@media (prefers-color-scheme: dark){}\<close>, the document
  \<open><style>@media (prefers-color-scheme: dark){}</style>\<close> yields \<open>@media\<close> and
  \<open>@media (prefers-color-scheme)\<close>.
\<close>

theorem media_features_recorded:
  "(css \<in> set (exec_all match_style_tag html) \<and> safeParser css = Inr root
      \<and> AtRule name params children \<in> set (walk root) \<and> toLowerCase name = ''media'' \<longrightarrow>
      ''@media'' \<in> set (cssAtRules (extractFeatures safeParser html))
      \<and> (\<forall>pre A f C t rest.
            params = pre @ ''('' @ A @ f @ C @ t # rest \<and> list_all is_space A \<and> f \<noteq> []
            \<and> list_all is_name_char f \<and> list_all is_space C \<and> t \<in> set '':,)''
            \<longrightarrow> ''@media ('' @ toLowerCase f @ '')''
                  \<in> set (cssAtRules (extractFeatures safeParser html))))
   \<and> (safeParser' ''@media (prefers-color-scheme: dark){}''
          = Inr [AtRule ''media'' ''(prefers-color-scheme: dark)'' []] \<longrightarrow>
        cssAtRules (extractFeatures safeParser'
            ''<style>@media (prefers-color-scheme: dark){}</style>'')
          = [''@media'', ''@media (prefers-color-scheme)''])"
proof (intro conjI impI allI)
  let ?inline = "extractInlineStyles safeParser html ([], Map.empty)"
  let ?st = "(fst ?inline, [] :: string list, snd ?inline)"
  have rules: "cssAtRules (extractFeatures safeParser html)
      = fst (snd (foldl (style_tag_step safeParser) ?st (exec_all match_style_tag html)))"
    by (simp add: extractFeatures_def extractStyleTags_def Let_def)
  assume h: "css \<in> set (exec_all match_style_tag html) \<and> safeParser css = Inr root
      \<and> AtRule name params children \<in> set (walk root) \<and> toLowerCase name = ''media''"
  then have blk: "css \<in> set (exec_all match_style_tag html)"
    and parsed: "safeParser css = Inr root"
    and node: "AtRule name params children \<in> set (walk root)"
    and media: "toLowerCase name = ''media''" by simp_all
  show "''@media'' \<in> set (cssAtRules (extractFeatures safeParser html))"
    unfolding rules
    by (rule parsed_block_reaches_result
          [of css "exec_all match_style_tag html" safeParser root, OF blk parsed])
       (rule media_features_from_ast(1) [OF node media])
  fix pre A f C t rest
  assume sh: "params = pre @ ''('' @ A @ f @ C @ t # rest \<and> list_all is_space A \<and> f \<noteq> []
            \<and> list_all is_name_char f \<and> list_all is_space C \<and> t \<in> set '':,)''"
  show "''@media ('' @ toLowerCase f @ '')'' \<in> set (cssAtRules (extractFeatures safeParser html))"
    unfolding rules
  proof (rule parsed_block_reaches_result
          [of css "exec_all match_style_tag html" safeParser root, OF blk parsed])
    fix rs
    show "''@media ('' @ toLowerCase f @ '')'' \<in> set (extractAtRulesFromAst root rs)"
      using media_features_from_ast(2) [OF node media, of pre A f C t rest rs] sh by blast
  qed
next
  assume "safeParser' ''@media (prefers-color-scheme: dark){}''
          = Inr [AtRule ''media'' ''(prefers-color-scheme: dark)'' []]"
  then show "cssAtRules (extractFeatures safeParser'
            ''<style>@media (prefers-color-scheme: dark){}</style>'')
          = [''@media'', ''@media (prefers-color-scheme)'']"
    by (simp add: extractFeatures_def extractInlineStyles_def extractStyleTags_def
        sample_no_inline sample_style_tag style_tag_step_def sample_media_rules Let_def
        del: exec_all.simps)
qed

theorem media_features_recorded_witness:
  "''@MEDIA screen and ( Min-Width : 600px){}'' \<in> set (exec_all match_style_tag media_html)
   \<and> media_parser ''@MEDIA screen and ( Min-Width : 600px){}''
        = Inr [AtRule ''MEDIA'' ''screen and ( Min-Width : 600px)'' []]
   \<and> AtRule ''MEDIA'' ''screen and ( Min-Width : 600px)'' []
        \<in> set (walk [AtRule ''MEDIA'' ''screen and ( Min-Width : 600px)'' []])
   \<and> toLowerCase ''MEDIA'' = ''media''
   \<and> ''@media'' \<in> set (cssAtRules (extractFeatures media_parser media_html))
   \<and> ''@media (min-width)'' \<in> set (cssAtRules (extractFeatures media_parser media_html))
   \<and> cssAtRules (extractFeatures sample_parser
          ''<style>@media (prefers-color-scheme: dark){}</style>'')
        = [''@media'', ''@media (prefers-color-scheme)'']"
proof -
  let ?css = "''@MEDIA screen and ( Min-Width : 600px){}''"
  let ?root = "[AtRule ''MEDIA'' ''screen and ( Min-Width : 600px)'' []]"
  note t = media_features_recorded [of ?css media_html media_parser ?root "''MEDIA''"
      "''screen and ( Min-Width : 600px)''" "[]" sample_parser]
  have blk: "?css \<in> set (exec_all match_style_tag media_html)"
    by (simp add: media_html_scans)
  have parsed: "media_parser ?css = Inr ?root" by (simp add: media_parser_def)
  have w: "AtRule ''MEDIA'' ''screen and ( Min-Width : 600px)'' [] \<in> set (walk ?root)"
    by (simp add: walk_def)
  have p: "sample_parser ''@media (prefers-color-scheme: dark){}''
          = Inr [AtRule ''media'' ''(prefers-color-scheme: dark)'' []]"
    by (simp add: sample_parser_def)
  have sh: "''screen and ( Min-Width : 600px)''
              = ''screen and '' @ ''('' @ '' '' @ ''Min-Width'' @ '' '' @ CHR '':'' # '' 600px)''
            \<and> list_all is_space '' '' \<and> ''Min-Width'' \<noteq> []
            \<and> list_all is_name_char ''Min-Width'' \<and> list_all is_space '' ''
            \<and> CHR '':'' \<in> set '':,)''"
    by (simp add: char_eval)
  from t blk parsed w sample_media_upper(1)
  have 1: "''@media'' \<in> set (cssAtRules (extractFeatures media_parser media_html))"
    by blast
  from t blk parsed w sample_media_upper(1) sh
  have "''@media ('' @ toLowerCase ''Min-Width'' @ '')''
      \<in> set (cssAtRules (extractFeatures media_parser media_html))"
    by blast
  then have 2: "''@media (min-width)''
      \<in> set (cssAtRules (extractFeatures media_parser media_html))"
    by (simp add: sample_media_upper(2))
  from t p have 3: "cssAtRules (extractFeatures sample_parser
          ''<style>@media (prefers-color-scheme: dark){}</style>'')
        = [''@media'', ''@media (prefers-color-scheme)'']" by blast
  from blk parsed w sample_media_upper(1) 1 2 3 show ?thesis by (intro conjI)
qed

end
